theory Spec2Isabelle
  imports Complex_Main
begin

section \<open>The p-AAA reductor of pyMOR (\<open>src/pymor/reductors/aaa.py\<close>)\<close>

text \<open>
  A shallow embedding of \<open>pAAAReductor.reduce\<close>, \<open>nd_loewner\<close>, \<open>full_nd_loewner\<close>,
  \<open>make_bary_func\<close>, \<open>_ls_part\<close> and \<open>_post_processing\<close>.

  \<^item> the values of numpy's floating-point numbers are elements of \<^typ>\<open>real\<close> and
    \<^typ>\<open>complex\<close>; \<open>inf\<close> and \<open>nan\<close> are outside the model. The arithmetic of the barycentric
    form (\<open>make_bary_func\<close>) is a parameter, the record \<open>arith\<close> of the rounded operations,
    so that what is said about its values does not depend on exact cancellation; the
    Loewner matrices and the error matrix are computed in the exact field. Division by zero,
    which numpy answers with \<open>inf\<close> or \<open>nan\<close>, is \<open>0\<close> in HOL: where the code compares such a
    quotient (line 203) the comparison with \<open>inf\<close> and \<open>nan\<close> is written out, and theorems
    that divide carry the hypotheses that keep the denominators away from zero.
  \<^item> an N-dimensional numpy array is a \<^emph>\<open>shape\<close> together with its entries in C (row-major)
    order; index tuples are enumerated in the same order by \<^const>\<open>product_lists\<close>.
  \<^item> indices are natural numbers (Python's negative indices are excluded by the type).
  \<^item> Python exceptions are values of the type \<open>error\<close>; a function that can raise returns
    \<open>error + 'a\<close>.
  \<^item> Python lists that are mutated in place (the interpolation partition) and the arrays
    held by the reductor live in an explicit heap, so that aliasing between the caller's
    objects and the reductor's is visible.
  \<^item> the routines of LAPACK/numpy that the code calls (\<open>scipy.linalg.svd\<close>,
    \<open>numpy.linalg.matrix_rank\<close>, the normal draws of the seeded generator) are parameters,
    collected in the record \<open>env\<close>.
\<close>

subsection \<open>Errors, tensors, Loewner matrices\<close>

datatype error = AssertionError | AttributeError | IndexError | NameError | ValueError

type_synonym cmat = "complex list list"

type_synonym addr = nat

text \<open>A numpy array: its shape and its entries in row-major order.\<close>

record tensor =
  shape :: "nat list"
  data :: "complex list"

text \<open>The flat position of an index tuple (\<open>numpy.ravel_multi_index\<close>).\<close>

fun ravel :: "nat list \<Rightarrow> nat list \<Rightarrow> nat" where
  "ravel (n # ns) (i # is) = i * prod_list ns + ravel ns is"
| "ravel _ _ = 0"

definition tget :: "tensor \<Rightarrow> nat list \<Rightarrow> complex" where
  "tget t idx = data t ! ravel (shape t) idx"


text \<open>\<open>samples[np.ix_(*parts)]\<close> raises \<open>IndexError\<close> when there are more index lists than
  dimensions or when an index is out of bounds for its dimension.\<close>

definition ix_ok :: "tensor \<Rightarrow> nat list list \<Rightarrow> bool" where
  "ix_ok t parts \<longleftrightarrow>
     length parts \<le> length (shape t)
     \<and> list_all (\<lambda>(p, n). list_all (\<lambda>k. k < n) p) (zip parts (shape t))"

text \<open>\<open>np.reshape(samples[np.ix_(*parts)], -1)\<close>: the entries at the Cartesian product of the
  index lists, in row-major order; a dimension without an index list is taken whole.\<close>

definition ix_gather :: "tensor \<Rightarrow> nat list list \<Rightarrow> complex list" where
  "ix_gather t parts =
     map (tget t) (product_lists (parts @ map (\<lambda>n. [0..<n]) (drop (length parts) (shape t))))"

text \<open>All index tuples of an array of the given shape, in row-major order
  (\<open>np.unravel_index k shape = all_idx shape ! k\<close>).\<close>

definition all_idx :: "nat list \<Rightarrow> nat list list" where
  "all_idx shp = product_lists (map (\<lambda>n. [0..<n]) shp)"

text \<open>\<open>_ls_part\<close>: per variable, \<open>np.delete(np.arange(len(s)), p)\<close>. \<open>np.delete\<close> raises
  \<open>IndexError\<close> for an index out of bounds.\<close>

definition part_ok :: "nat list list \<Rightarrow> complex list list \<Rightarrow> bool" where
  "part_ok itpl_part svs = list_all (\<lambda>(p, s). list_all (\<lambda>k. k < length s) p) (zip itpl_part svs)"

definition ls_idx :: "nat list list \<Rightarrow> complex list list \<Rightarrow> nat list list" where
  "ls_idx itpl_part svs = map (\<lambda>(p, s). filter (\<lambda>k. k \<notin> set p) [0..<length s]) (zip itpl_part svs)"

definition ls_part :: "nat list list \<Rightarrow> complex list list \<Rightarrow> error + nat list list" where
  "ls_part itpl_part svs =
     (if part_ok itpl_part svs then Inr (ls_idx itpl_part svs) else Inl IndexError)"

text \<open>\<open>ph[:, np.newaxis] - p[np.newaxis]\<close>, \<open>np.kron\<close> on matrices and fancy indexing \<open>s[p]\<close>.\<close>

definition outer_diff :: "complex list \<Rightarrow> complex list \<Rightarrow> cmat" where
  "outer_diff ph p = map (\<lambda>a. map (\<lambda>b. a - b) p) ph"

definition kron :: "cmat \<Rightarrow> cmat \<Rightarrow> cmat" where
  "kron A B = concat (map (\<lambda>ra. map (\<lambda>rb. concat (map (\<lambda>a. map (\<lambda>b. a * b) rb) ra)) B) A)"

definition take_idx :: "complex list \<Rightarrow> nat list \<Rightarrow> complex list" where
  "take_idx s p = map (\<lambda>k. s ! k) p"

text \<open>
  \<open>nd_loewner\<close> (lines 240-281). \<open>svs[0]\<close>, \<open>itpl_part[0]\<close> and, in the loop of line 269,
  \<open>svs[i]\<close> and \<open>itpl_part[i]\<close> for \<open>i < d\<close> raise \<open>IndexError\<close> on a list that is too short
  (\<open>ls_part\<close> is as long as the shorter of \<open>itpl_part\<close> and \<open>svs\<close>). The two reshapes of lines
  276 and 278 are \<open>np.reshape(x, (-1, x.size))\<close>, which raises \<open>ValueError\<close> for an array
  without entries, that is, when some index list is empty. Where the function returns, the
  quotient of line 281 is between matrices of the same shape.
\<close>

definition nd_loewner :: "tensor \<Rightarrow> complex list list \<Rightarrow> nat list list \<Rightarrow> error + cmat" where
  "nd_loewner samples svs itpl_part =
     (let d = length (shape samples) in
      case ls_part itpl_part svs of Inl e \<Rightarrow> Inl e
      | Inr lsp \<Rightarrow>
         if svs = [] \<or> itpl_part = [] \<or> length svs < d \<or> length itpl_part < d then Inl IndexError
         else
         (let s0 = svs ! 0;
              s = take_idx s0 (itpl_part ! 0);
              sh = take_idx s0 (lsp ! 0);
              sd = outer_diff sh s;
              sdpd = fold (\<lambda>i acc. kron acc (outer_diff (take_idx (svs ! i) (lsp ! i))
                                                         (take_idx (svs ! i) (itpl_part ! i))))
                          [1..<d] sd
          in if \<not> ix_ok samples itpl_part then Inl IndexError
             else (let samples0 = ix_gather samples itpl_part
                   in if samples0 = [] then Inl ValueError
                      else if \<not> ix_ok samples lsp then Inl IndexError
                      else (let samples1 = ix_gather samples lsp
                            in if samples1 = [] then Inl ValueError
                               else (let samplesd = outer_diff samples1 samples0
                                     in Inr (map (\<lambda>(rd, rs). map (\<lambda>(x, y). x / y) (zip rd rs))
                                                 (zip samplesd sdpd)))))))"



subsection \<open>The barycentric form (\<open>make_bary_func\<close>, lines 336-375)\<close>

text \<open>
  The floating-point operations that \<open>bary_func\<close> performs: subtraction, absolute value,
  multiplication, addition and division, each with the rounding of the machine. In
  \<open>exact_arith\<close> nothing is rounded. IEEE 754 arithmetic multiplies by one and by zero and adds
  zero without rounding (on finite numbers), which is what \<open>arith_ok\<close> says.
\<close>

record arith =
  fl_sub :: "complex \<Rightarrow> complex \<Rightarrow> complex"
  fl_abs :: "complex \<Rightarrow> real"
  fl_mul :: "complex \<Rightarrow> complex \<Rightarrow> complex"
  fl_add :: "complex \<Rightarrow> complex \<Rightarrow> complex"
  fl_div :: "complex \<Rightarrow> complex \<Rightarrow> complex"

definition exact_arith :: arith where
  "exact_arith = \<lparr>fl_sub = (\<lambda>x y. x - y), fl_abs = cmod, fl_mul = (\<lambda>x y. x * y),
                  fl_add = (\<lambda>x y. x + y), fl_div = (\<lambda>x y. x / y)\<rparr>"

definition arith_ok :: "arith \<Rightarrow> bool" where
  "arith_ok ar \<longleftrightarrow>
     (\<forall>x. fl_mul ar 1 x = x \<and> fl_mul ar x 1 = x \<and> fl_mul ar 0 x = 0 \<and> fl_mul ar x 0 = 0
          \<and> fl_add ar 0 x = x \<and> fl_add ar x 0 = x)"

text \<open>Interpolation values are a vector of scalars (SISO) or a stack of
  \<open>dim_output \<times> dim_input\<close> matrices (MIMO).\<close>

datatype vals = SISO "complex list" | MIMO nat nat "cmat list"

text \<open>\<open>np.argmin\<close> and \<open>np.argmax\<close> return the first position of the extremum.\<close>

definition first_index :: "('a \<Rightarrow> bool) \<Rightarrow> 'a list \<Rightarrow> nat" where
  "first_index P xs = length (takeWhile (\<lambda>x. \<not> P x) xs)"

definition argmin :: "real list \<Rightarrow> nat" where
  "argmin xs = first_index (\<lambda>x. x = Min (set xs)) xs"

definition argmax :: "real list \<Rightarrow> nat" where
  "argmax xs = first_index (\<lambda>x. x = Max (set xs)) xs"

text \<open>\<open>np.eye(1, n, k)\<close> as a row, \<open>np.kron\<close> on rows, and the sum of products computed by
  \<open>np.tensordot\<close> and \<open>np.inner\<close> (accumulated from zero, left to right).\<close>

definition eye1 :: "nat \<Rightarrow> nat \<Rightarrow> complex list" where
  "eye1 n k = map (\<lambda>j. if j = k then 1 else 0) [0..<n]"

definition kronv :: "arith \<Rightarrow> complex list \<Rightarrow> complex list \<Rightarrow> complex list" where
  "kronv ar a b = concat (map (\<lambda>x. map (\<lambda>y. fl_mul ar x y) b) a)"

definition dot :: "arith \<Rightarrow> complex list \<Rightarrow> complex list \<Rightarrow> complex" where
  "dot ar xs ys = foldl (fl_add ar) 0 (map (\<lambda>(x, y). fl_mul ar x y) (zip xs ys))"

text \<open>The body of the pole-cancellation loop for one variable (lines 361-367): the
  factor \<open>d\<close> that is multiplied into \<open>pd\<close>.\<close>

definition pole_term :: "arith \<Rightarrow> real \<Rightarrow> complex list \<Rightarrow> complex \<Rightarrow> complex list" where
  "pole_term ar tol nodes x =
     (let d = map (\<lambda>n. fl_sub ar x n) nodes;
          d_zero = filter (\<lambda>y. fl_abs ar y < tol) d
      in if length d_zero > 0 then eye1 (length d) (argmin (map (fl_abs ar) d))
         else map (\<lambda>y. fl_div ar 1 y) d)"

text \<open>The position of the node nearest to \<open>x\<close>, in the distances that line 364 computes:
  \<open>np.argmin(np.abs(x - nodes))\<close>, the first position of the least distance.\<close>

definition nearest :: "arith \<Rightarrow> complex list \<Rightarrow> complex \<Rightarrow> nat" where
  "nearest ar nodes x = argmin (map (\<lambda>n. fl_abs ar (fl_sub ar x n)) nodes)"

definition bary_pd :: "arith \<Rightarrow> real \<Rightarrow> complex list list \<Rightarrow> complex list \<Rightarrow> complex list" where
  "bary_pd ar tol itpl_nodes args =
     fold (\<lambda>i pd. kronv ar pd (pole_term ar tol (itpl_nodes ! i) (args ! i)))
          [0..<length itpl_nodes] [1]"

text \<open>
  \<open>make_bary_func ar itpl_nodes itpl_vals coefs tol\<close> is the returned closure \<open>bary_func\<close>,
  computing in the arithmetic \<open>ar\<close>; its result is the matrix \<open>np.atleast_2d(nd[0])\<close>.
  \<open>coefs\<close> holds the entries of the column vector that the code calls \<open>coefs\<close>. \<open>args[i]\<close>
  raises \<open>IndexError\<close> when there are fewer arguments than variables; the product of line
  369, \<open>np.tensordot\<close> and \<open>np.inner\<close> raise \<open>ValueError\<close> unless \<open>coefs\<close>, \<open>pd\<close> and
  \<open>itpl_vals\<close> have the same number of entries.
\<close>

definition make_bary_func ::
  "arith \<Rightarrow> complex list list \<Rightarrow> vals \<Rightarrow> complex list \<Rightarrow> real \<Rightarrow> complex list \<Rightarrow> error + cmat" where
  "make_bary_func ar itpl_nodes itpl_vals coefs removable_singularity_tol args =
     (if length args < length itpl_nodes then Inl IndexError
      else (let pd = bary_pd ar removable_singularity_tol itpl_nodes args
            in if length coefs \<noteq> length pd then Inl ValueError
               else (let m = map (\<lambda>(c, p). fl_mul ar c p) (zip coefs pd);
                         denom = dot ar coefs pd
                     in case itpl_vals of
                          SISO vs \<Rightarrow>
                            if length vs \<noteq> length m then Inl ValueError
                            else Inr [[fl_div ar (dot ar m vs) denom]]
                        | MIMO dim_output dim_input Ms \<Rightarrow>
                            if length Ms \<noteq> length m then Inl ValueError
                            else Inr (map (\<lambda>a. map (\<lambda>b. fl_div ar (dot ar m (map (\<lambda>M. M ! a ! b) Ms)) denom)
                                                  [0..<dim_input]) [0..<dim_output]))))"

definition default_singularity_tol :: real where
  "default_singularity_tol = 1 / 10 ^ 14"

subsection \<open>\<open>full_nd_loewner\<close> (lines 284-333)\<close>

text \<open>\<open>samples[tuple(l_j)]\<close> where \<open>l_j\<close> mixes fixed indices (\<open>Some x\<close>) and \<open>slice(None)\<close>
  (\<open>None\<close>).\<close>

definition sub_tensor :: "tensor \<Rightarrow> nat option list \<Rightarrow> tensor" where
  "sub_tensor t l_j =
     \<lparr>shape = map snd (filter (\<lambda>(sl, n). sl = None) (zip l_j (shape t))),
      data = map (tget t)
               (product_lists (map (\<lambda>(sl, n). case sl of None \<Rightarrow> [0..<n] | Some x \<Rightarrow> [x])
                                   (zip l_j (shape t))))\<rparr>"

text \<open>Lines 316-319: the tuple \<open>j\<close> with \<open>slice(None)\<close> inserted at the positions where the
  combination \<open>i\<close> has a one.\<close>

fun insert_slices :: "nat list \<Rightarrow> nat list \<Rightarrow> nat option list" where
  "insert_slices [] js = map Some js"
| "insert_slices (b # bs) js =
     (if b = 1 then None # insert_slices bs js
      else (case js of [] \<Rightarrow> [] | x # xs \<Rightarrow> Some x # insert_slices bs xs))"

definition eye :: "nat \<Rightarrow> cmat" where
  "eye n = map (\<lambda>r. eye1 n r) [0..<n]"

definition matmul :: "cmat \<Rightarrow> cmat \<Rightarrow> cmat" where
  "matmul A B =
     map (\<lambda>row. map (\<lambda>c. sum_list (map (\<lambda>(x, brow). x * brow ! c) (zip row B)))
                    [0..<(case B of [] \<Rightarrow> 0 | b # _ \<Rightarrow> length b)]) A"

text \<open>\<open>[xs[k] for k in range_S if i[k] == v]\<close>.\<close>

definition select :: "'a list \<Rightarrow> nat list \<Rightarrow> nat \<Rightarrow> 'a list" where
  "select xs bits v = map fst (filter (\<lambda>(x, b). b = v) (zip xs bits))"

definition T_mat :: "nat list list \<Rightarrow> nat list \<Rightarrow> nat option list \<Rightarrow> cmat" where
  "T_mat itpl_part bits l_j =
     fold (\<lambda>k T. kron T (if bits ! k = 1 then eye (length (itpl_part ! k))
                          else [eye1 (length (itpl_part ! k))
                                  (first_index (\<lambda>x. Some x = l_j ! k) (itpl_part ! k))]))
          [0..<length bits] [[1]]"

text \<open>The inner loop over \<open>j\<close> (lines 315-332) and the outer loop over the combinations
  \<open>i\<close> (lines 309-313).\<close>

fun loewner_blocks ::
  "tensor \<Rightarrow> complex list list \<Rightarrow> nat list list \<Rightarrow> nat list \<Rightarrow> nat list list \<Rightarrow> cmat \<Rightarrow> error + cmat" where
  "loewner_blocks samples svs itpl_part bits [] L = Inr L"
| "loewner_blocks samples svs itpl_part bits (j # js) L =
     (let l_j = insert_slices bits j;
          samples0 = sub_tensor samples l_j;
          svs0 = select svs bits 1;
          itpl_part0 = select itpl_part bits 1
      in case nd_loewner samples0 svs0 itpl_part0 of
           Inl e \<Rightarrow> Inl e
         | Inr LL \<Rightarrow> loewner_blocks samples svs itpl_part bits js
                        (L @ matmul LL (T_mat itpl_part bits l_j)))"

fun loewner_combos ::
  "tensor \<Rightarrow> complex list list \<Rightarrow> nat list list \<Rightarrow> nat list list \<Rightarrow> cmat \<Rightarrow> error + cmat" where
  "loewner_combos samples svs itpl_part [] L = Inr L"
| "loewner_combos samples svs itpl_part (bits # rest) L =
     (if bits = replicate (length svs) 0 \<or> bits = replicate (length svs) 1
      then loewner_combos samples svs itpl_part rest L
      else case loewner_blocks samples svs itpl_part bits
                  (product_lists (select itpl_part bits 0)) L of
             Inl e \<Rightarrow> Inl e
           | Inr L' \<Rightarrow> loewner_combos samples svs itpl_part rest L')"

definition full_nd_loewner :: "tensor \<Rightarrow> complex list list \<Rightarrow> nat list list \<Rightarrow> error + cmat" where
  "full_nd_loewner samples svs itpl_part =
     (case nd_loewner samples svs itpl_part of
        Inl e \<Rightarrow> Inl e
      | Inr L \<Rightarrow> loewner_combos samples svs itpl_part
                   (product_lists (replicate (length svs) [0, 1])) L)"

subsection \<open>Objects: the heap, the reductor, the external routines\<close>

text \<open>
  The heap holds the mutable Python objects, one component per kind of object, an address
  being a position in the component: lists of indices (the per-variable lists of an
  interpolation partition), lists of references to such lists (the partition itself),
  one-dimensional arrays of sampling values, lists of references to arrays
  (\<open>sampling_values\<close>) and sample tensors. Allocation appends to a component.
\<close>

record heap =
  int_lists :: "nat list list"
  ref_lists :: "addr list list"
  arrays :: "complex list list"
  arr_lists :: "addr list list"
  tensors :: "tensor list"

datatype level = INFO | WARNING

datatype message =
    RelativeErrorAtStep nat real "nat list"
  | StartingPostProcessing
  | PostProcessingFailed
  | NonMinimalInterpolant
  | ConvergedNullSpace

text \<open>The attributes of a \<open>pAAAReductor\<close> (\<open>self.samples\<close> is \<open>self_samples\<close>, and so on);
  \<open>self_logger\<close> is the list of messages that \<open>self.logger\<close> has received.\<close>

record reductor =
  self_sampling_values :: addr
  self_samples :: addr
  self_conjugate :: bool
  self_nsp_tol :: real
  self_post_process :: bool
  self_L_rk_tol :: real
  self_num_vars :: nat
  self_itpl_part :: "addr option"
  self_logger :: "(level \<times> message) list"

text \<open>
  External routines: \<open>svd E L\<close> is the pair \<open>(S, V)\<close> of \<open>spla.svd(L, lapack_driver='gesvd')\<close>
  (singular values and the matrix the code names \<open>V\<close>), \<open>matrix_rank E L tol\<close> is
  \<open>np.linalg.matrix_rank(L, tol=tol)\<close>, and \<open>rng_normal E k\<close> is the \<open>k\<close>-th standard normal
  draw of the generator \<open>new_rng(0)\<close>. \<open>fl E\<close> is the floating-point arithmetic in which the
  barycentric form is evaluated.
\<close>

record env =
  svd :: "cmat \<Rightarrow> real list \<times> cmat"
  matrix_rank :: "cmat \<Rightarrow> real \<Rightarrow> nat"
  rng_normal :: "nat \<Rightarrow> real"
  fl :: arith

text \<open>The value of the nested list at address \<open>a\<close>, \<open>itpl_part[i].append(x)\<close>, Python's
  slice \<open>xs[0:e]\<close> and the assignment \<open>itpl_part[i] = itpl_part[i][0:e]\<close>, which stores a new
  list in slot \<open>i\<close> of the outer list.\<close>

definition part_of :: "heap \<Rightarrow> addr \<Rightarrow> nat list list" where
  "part_of h a = map (\<lambda>b. int_lists h ! b) (ref_lists h ! a)"

definition list_append :: "heap \<Rightarrow> addr \<Rightarrow> nat \<Rightarrow> nat \<Rightarrow> heap" where
  "list_append h a i x =
     (let b = ref_lists h ! a ! i
      in h\<lparr>int_lists := (int_lists h)[b := int_lists h ! b @ [x]]\<rparr>)"

definition py_slice_to :: "'a list \<Rightarrow> int \<Rightarrow> 'a list" where
  "py_slice_to xs e = (if 0 \<le> e then take (nat e) xs else take (length xs - nat (- e)) xs)"

definition set_slice :: "heap \<Rightarrow> addr \<Rightarrow> nat \<Rightarrow> int \<Rightarrow> heap" where
  "set_slice h a i e =
     (let b = ref_lists h ! a ! i; new = length (int_lists h)
      in h\<lparr>int_lists := int_lists h @ [py_slice_to (int_lists h ! b) e],
           ref_lists := (ref_lists h)[a := (ref_lists h ! a)[i := new]]\<rparr>)"

text \<open>\<open>VH = V.T.conj(); coefs = VH[:, -1:]\<close>, as a flat vector.\<close>

definition svd_coefs :: "cmat \<Rightarrow> complex list" where
  "svd_coefs V = (let VH = map (map cnj) (transpose V)
                  in concat (map (\<lambda>row. drop (length row - 1) row) VH))"

subsection \<open>\<open>_post_processing\<close> (lines 388-427)\<close>

text \<open>Lines 404-410: the largest rank among the one-dimensional Loewner matrices of
  variable \<open>i\<close>, the other variables held fixed at \<open>idc\<close>.\<close>

fun rank_sweep ::
  "env \<Rightarrow> tensor \<Rightarrow> complex list \<Rightarrow> nat list \<Rightarrow> real \<Rightarrow> nat \<Rightarrow> nat list list \<Rightarrow> nat \<Rightarrow> error + nat" where
  "rank_sweep E samples sv ip tol i [] max_rk = Inr max_rk"
| "rank_sweep E samples sv ip tol i (idc # rest) max_rk =
     (let l_idc = map Some (take i idc) @ [None] @ map Some (drop i idc)
      in case nd_loewner (sub_tensor samples l_idc) [sv] [ip] of
           Inl e \<Rightarrow> Inl e
         | Inr L \<Rightarrow> (let rk = matrix_rank E L tol
                      in rank_sweep E samples sv ip tol i rest (if rk > max_rk then rk else max_rk)))"

text \<open>Lines 393-411: the loop that fills \<open>max_rks\<close>.\<close>

fun max_ranks ::
  "env \<Rightarrow> tensor \<Rightarrow> complex list list \<Rightarrow> nat list list \<Rightarrow> real \<Rightarrow> nat \<Rightarrow> nat list \<Rightarrow> int list \<Rightarrow> error + int list" where
  "max_ranks E samples svs parts tol max_idx [] max_rks = Inr max_rks"
| "max_ranks E samples svs parts tol max_idx (i # is) max_rks =
     (if i = max_idx
      then max_ranks E samples svs parts tol max_idx is
             (max_rks @ [int (length (parts ! max_idx)) - 1])
      else (let shapes = map (\<lambda>j. shape samples ! j) (filter (\<lambda>j. i \<noteq> j) [0..<length svs])
            in case rank_sweep E samples (svs ! i) (parts ! i) tol i
                      (product_lists (map (\<lambda>s. [0..<s]) shapes)) 0 of
                 Inl e \<Rightarrow> Inl e
               | Inr max_rk \<Rightarrow> max_ranks E samples svs parts tol max_idx is (max_rks @ [int max_rk])))"

text \<open>Line 413: \<open>denom\<close>.\<close>

definition pp_denom :: "nat list list \<Rightarrow> int list \<Rightarrow> int" where
  "pp_denom parts max_rks = prod_list (map (\<lambda>k. int (length (parts ! k)) - max_rks ! k) [0..<length parts])"

text \<open>
  The result is the new heap together with \<open>None\<close> for the sentinel \<open>(None, None)\<close> or
  \<open>Some (coefs, itpl_part)\<close>. Since \<open>d_nsp % denom == 0\<close> on the path that reaches line 416,
  \<open>round(len - d_nsp / denom)\<close> is \<open>len - d_nsp div denom\<close>.
\<close>

definition post_processing ::
  "env \<Rightarrow> heap \<Rightarrow> tensor \<Rightarrow> complex list list \<Rightarrow> addr \<Rightarrow> nat \<Rightarrow> real
     \<Rightarrow> error + (heap \<times> (complex list \<times> addr) option)" where
  "post_processing E h samples svs itpl_part d_nsp L_rk_tol =
     (let parts = part_of h itpl_part;
          num_vars = length svs;
          max_idx = argmax (map (\<lambda>ip. real (length ip)) parts)
      in case max_ranks E samples svs parts L_rk_tol max_idx [0..<num_vars] [] of
           Inl e \<Rightarrow> Inl e
         | Inr max_rks \<Rightarrow>
            (let denom = pp_denom parts max_rks
             in if denom = 0 \<or> int d_nsp mod denom \<noteq> 0 then Inr (h, None)
                else (let max_rks' = max_rks[max_idx := int (length (parts ! max_idx)) - int d_nsp div denom];
                          h' = fold (\<lambda>i hh. set_slice hh itpl_part i (max_rks' ! i + 1))
                                    [0..<length max_rks'] h
                      in case full_nd_loewner samples svs (part_of h' itpl_part) of
                           Inl e \<Rightarrow> Inl e
                         | Inr L \<Rightarrow> (case svd E L of (S, V) \<Rightarrow>
                                        Inr (h', Some (svd_coefs V, itpl_part))))))"

subsection \<open>The greedy loop of \<open>reduce\<close> (lines 160-223)\<close>

text \<open>
  \<open>loop_consts\<close> are the local variables that the loop only reads; \<open>loop_state\<close> is what an
  iteration changes. \<open>st_fit\<close> is \<open>None\<close> while the names \<open>itpl_nodes\<close>, \<open>itpl_samples\<close> and
  \<open>coefs\<close> are unbound and \<open>bary_func\<close> is the constant function of line 155; afterwards it
  holds their values, which determine \<open>bary_func\<close> (line 219).
\<close>

datatype outcome = Break_tol | Break_nsp | Again

record loop_consts =
  c_svs :: "complex list list"
  c_samples :: tensor
  c_max_samples :: real
  c_rel_tol :: real
  c_max_itpl :: "int list"

record loop_state =
  st_heap :: heap
  st_self :: reductor
  st_fit :: "(complex list list \<times> complex list \<times> complex list) option"
  st_j :: nat

definition log_msg :: "reductor \<Rightarrow> level \<Rightarrow> message \<Rightarrow> reductor" where
  "log_msg r l m = r\<lparr>self_logger := self_logger r @ [(l, m)]\<rparr>"

text \<open>One scalar call of \<open>bary_func\<close> under \<open>np.vectorize\<close>.\<close>

definition bary_value ::
  "arith \<Rightarrow> (complex list list \<times> complex list \<times> complex list) option \<Rightarrow> tensor \<Rightarrow> complex list
     \<Rightarrow> error + complex" where
  "bary_value ar fit samples args =
     (case fit of
        None \<Rightarrow> Inr (sum_list (data samples) / of_nat (length (data samples)))
      | Some (itpl_nodes, itpl_samples, coefs) \<Rightarrow>
          (case make_bary_func ar itpl_nodes (SISO itpl_samples) coefs default_singularity_tol args of
             Inl e \<Rightarrow> Inl e
           | Inr nd \<Rightarrow> Inr (nd ! 0 ! 0)))"

text \<open>Sequencing of calls that can raise: the first exception, or all the results.\<close>

fun collect :: "(error + 'a) list \<Rightarrow> error + 'a list" where
  "collect [] = Inr []"
| "collect (Inl e # xs) = Inl e"
| "collect (Inr x # xs) = (case collect xs of Inl e \<Rightarrow> Inl e | Inr ys \<Rightarrow> Inr (x # ys))"

text \<open>Lines 163-164: \<open>err_mat\<close>, in row-major order.\<close>

definition err_mat ::
  "arith \<Rightarrow> loop_consts \<Rightarrow> (complex list list \<times> complex list \<times> complex list) option
     \<Rightarrow> error + real list" where
  "err_mat ar c fit =
     (case collect (map (\<lambda>idx. bary_value ar fit (c_samples c) (map (\<lambda>(sv, k). sv ! k) (zip (c_svs c) idx)))
                        (all_idx (map length (c_svs c)))) of
        Inl e \<Rightarrow> Inl e
      | Inr vs \<Rightarrow> Inr (map (\<lambda>(v, idx). cmod (v - tget (c_samples c) idx))
                          (zip vs (all_idx (map length (c_svs c))))))"

text \<open>Lines 167-172: \<open>zero_idx\<close>.\<close>

definition zero_idx :: "loop_consts \<Rightarrow> nat list list \<Rightarrow> nat list list" where
  "zero_idx c parts =
     map (\<lambda>i. if int (length (parts ! i)) \<ge> c_max_itpl c ! i
               then [0..<shape (c_samples c) ! i] else parts ! i)
         [0..<length (c_svs c)]"

definition in_product :: "nat list \<Rightarrow> nat list list \<Rightarrow> bool" where
  "in_product idx zs = list_all2 (\<lambda>k z. k \<in> set z) idx zs"

text \<open>Line 173: \<open>err_mat[np.ix_(*zero_idx)] = 0\<close>.\<close>

definition masked_err_mat :: "loop_consts \<Rightarrow> real list \<Rightarrow> nat list list \<Rightarrow> real list" where
  "masked_err_mat c errs parts =
     map (\<lambda>(idx, e). if in_product idx (zero_idx c parts) then 0 else e)
         (zip (all_idx (map length (c_svs c))) errs)"

text \<open>Line 184: \<open>greedy_idx\<close>.\<close>

definition greedy_index :: "loop_consts \<Rightarrow> real list \<Rightarrow> nat list" where
  "greedy_index c masked = all_idx (map length (c_svs c)) ! argmax masked"

text \<open>\<open>np.where(xs == v)[0]\<close>.\<close>

definition where_eq :: "complex list \<Rightarrow> complex \<Rightarrow> nat list" where
  "where_eq xs v = filter (\<lambda>k. xs ! k = v) [0..<length xs]"

text \<open>Lines 186-193: the body of the loop over the variables, and the loop.\<close>

definition greedy_step ::
  "bool \<Rightarrow> complex list list \<Rightarrow> int list \<Rightarrow> addr \<Rightarrow> nat list \<Rightarrow> nat \<Rightarrow> heap \<Rightarrow> error + heap" where
  "greedy_step cj svs max_itpl a greedy_idx i h =
     (let p = part_of h a ! i
      in if greedy_idx ! i \<notin> set p \<and> int (length p) < max_itpl ! i
         then (let h1 = list_append h a i (greedy_idx ! i)
               in if i = 0 \<and> cj \<and> Im (svs ! i ! (greedy_idx ! i)) \<noteq> 0
                  then (case where_eq (svs ! 0) (cnj (svs ! i ! (greedy_idx ! i))) of
                          [] \<Rightarrow> Inl IndexError
                        | conj_idx # _ \<Rightarrow> Inr (list_append h1 a i conj_idx))
                  else Inr h1)
         else Inr h)"

fun greedy_loop ::
  "bool \<Rightarrow> complex list list \<Rightarrow> int list \<Rightarrow> addr \<Rightarrow> nat list \<Rightarrow> nat list \<Rightarrow> heap \<Rightarrow> error + heap" where
  "greedy_loop cj svs max_itpl a greedy_idx [] h = Inr h"
| "greedy_loop cj svs max_itpl a greedy_idx (i # is) h =
     (case greedy_step cj svs max_itpl a greedy_idx i h of
        Inl e \<Rightarrow> Inl e
      | Inr h1 \<Rightarrow> greedy_loop cj svs max_itpl a greedy_idx is h1)"

text \<open>Lines 203-213: the branch on the dimension of the null space.\<close>

definition nonminimal ::
  "env \<Rightarrow> loop_consts \<Rightarrow> loop_state \<Rightarrow> complex list \<Rightarrow> nat \<Rightarrow> error + (complex list \<times> loop_state)" where
  "nonminimal E c st coefs d_nsp =
     (let r = st_self st
      in if d_nsp > 1
         then (if self_post_process r
               then (let r1 = log_msg r INFO StartingPostProcessing
                     in case self_itpl_part r of
                          None \<Rightarrow> Inl AttributeError
                        | Some a \<Rightarrow>
                           (case post_processing E (st_heap st) (c_samples c) (c_svs c) a d_nsp (self_L_rk_tol r) of
                              Inl e \<Rightarrow> Inl e
                            | Inr (h', Some (pp_coefs, pp_itpl_part)) \<Rightarrow>
                                Inr (pp_coefs, st\<lparr>st_heap := h',
                                                   st_self := r1\<lparr>self_itpl_part := Some pp_itpl_part\<rparr>\<rparr>)
                            | Inr (h', None) \<Rightarrow>
                                Inr (coefs, st\<lparr>st_heap := h',
                                                st_self := log_msg r1 WARNING PostProcessingFailed\<rparr>)))
               else Inr (coefs, st\<lparr>st_self := log_msg r WARNING NonMinimalInterpolant\<rparr>))
         else Inr (coefs, st))"

text \<open>
  Line 203: \<open>d_nsp = np.sum(S/S[0] < self.nsp_tol)\<close>; \<open>S[0]\<close> raises \<open>IndexError\<close> on an empty
  \<open>S\<close>. When \<open>S[0]\<close> is zero the quotient is \<open>nan\<close> for a zero entry, which is below no
  tolerance, and plus or minus \<open>inf\<close> for a positive or negative entry.
\<close>

definition null_dim :: "real \<Rightarrow> real list \<Rightarrow> nat" where
  "null_dim tol S = length (filter (\<lambda>s. if S ! 0 = 0 then s < 0 else s / S ! 0 < tol) S)"

text \<open>Lines 196-223: from the least-squares problem to the end of the iteration.\<close>

definition solve_update :: "env \<Rightarrow> loop_consts \<Rightarrow> loop_state \<Rightarrow> error + (outcome \<times> loop_state)" where
  "solve_update E c st =
     (case self_itpl_part (st_self st) of
        None \<Rightarrow> Inl AttributeError
      | Some a \<Rightarrow>
         (case full_nd_loewner (c_samples c) (c_svs c) (part_of (st_heap st) a) of
            Inl e \<Rightarrow> Inl e
          | Inr L \<Rightarrow>
             (case svd E L of (S, V) \<Rightarrow>
                (let coefs = svd_coefs V
                 in if S = [] then Inl IndexError
                    else (let d_nsp = null_dim (self_nsp_tol (st_self st)) S
                          in case nonminimal E c st coefs d_nsp of
                               Inl e \<Rightarrow> Inl e
                             | Inr (coefs', st1) \<Rightarrow>
                                (case self_itpl_part (st_self st1) of
                                   None \<Rightarrow> Inl AttributeError
                                 | Some a1 \<Rightarrow>
                                    (let parts = part_of (st_heap st1) a1
                                     in if \<not> ix_ok (c_samples c) parts then Inl IndexError
                                        else
                                    (let itpl_samples = ix_gather (c_samples c) parts;
                                         itpl_nodes = map (\<lambda>(sv, lp). take_idx sv lp) (zip (c_svs c) parts);
                                         st2 = st1\<lparr>st_fit := Some (itpl_nodes, itpl_samples, coefs')\<rparr>
                                     in if self_post_process (st_self st2) \<and> d_nsp \<ge> 1
                                        then Inr (Break_nsp,
                                                  st2\<lparr>st_self := log_msg (st_self st2) INFO ConvergedNullSpace\<rparr>)
                                        else Inr (Again, st2)))))))))"

text \<open>Lines 163-174: the masked error matrix of the current state; a call of \<open>bary_func\<close>
  can raise, assigning through an index out of bounds raises \<open>IndexError\<close>, \<open>np.max\<close> of an
  empty array raises \<open>ValueError\<close>.\<close>

definition masked_errors :: "env \<Rightarrow> loop_consts \<Rightarrow> loop_state \<Rightarrow> error + real list" where
  "masked_errors E c st =
     (case self_itpl_part (st_self st) of
        None \<Rightarrow> Inl AttributeError
      | Some a \<Rightarrow>
         (case err_mat (fl E) c (st_fit st) of
            Inl e \<Rightarrow> Inl e
          | Inr errs \<Rightarrow>
             (let parts = part_of (st_heap st) a
              in if \<not> list_all (\<lambda>(z, n). list_all (\<lambda>k. k < n) z)
                         (zip (zero_idx c parts) (map length (c_svs c)))
                 then Inl IndexError
                 else (let masked = masked_err_mat c errs parts
                       in if masked = [] then Inl ValueError else Inr masked))))"

text \<open>One iteration of the \<open>while\<close> loop (lines 162-223).\<close>

definition reduce_iter :: "env \<Rightarrow> loop_consts \<Rightarrow> loop_state \<Rightarrow> error + (outcome \<times> loop_state)" where
  "reduce_iter E c st =
     (case masked_errors E c st of
        Inl e \<Rightarrow> Inl e
      | Inr masked \<Rightarrow>
         (case self_itpl_part (st_self st) of
            None \<Rightarrow> Inl AttributeError
          | Some a \<Rightarrow>
             (let err = Max (set masked);
                  j = st_j st + 1;
                  r1 = log_msg (st_self st) INFO
                         (RelativeErrorAtStep j (err / c_max_samples c)
                            (map length (part_of (st_heap st) a)))
              in if err \<le> c_rel_tol c
                 then Inr (Break_tol, st\<lparr>st_self := r1, st_j := j\<rparr>)
                 else (case greedy_loop (self_conjugate r1) (c_svs c) (c_max_itpl c) a
                              (greedy_index c masked) [0..<length (c_svs c)] (st_heap st) of
                         Inl e \<Rightarrow> Inl e
                       | Inr h1 \<Rightarrow> solve_update E c (st\<lparr>st_heap := h1, st_self := r1, st_j := j\<rparr>)))))"

text \<open>Line 160: the loop condition.\<close>

definition has_room :: "int list \<Rightarrow> nat list list \<Rightarrow> bool" where
  "has_room max_itpl parts = list_ex (\<lambda>(i, mi). int (length i) < mi) (zip parts max_itpl)"

text \<open>The \<open>while\<close> loop, with fuel: \<open>None\<close> means that the loop has not ended after \<open>fuel\<close>
  evaluations of its condition.\<close>

fun reduce_loop :: "nat \<Rightarrow> env \<Rightarrow> loop_consts \<Rightarrow> loop_state \<Rightarrow> (error + loop_state) option" where
  "reduce_loop 0 E c st = None"
| "reduce_loop (Suc fuel) E c st =
     (case self_itpl_part (st_self st) of
        None \<Rightarrow> Some (Inl AttributeError)
      | Some a \<Rightarrow>
          if has_room (c_max_itpl c) (part_of (st_heap st) a)
          then (case reduce_iter E c st of
                  Inl e \<Rightarrow> Some (Inl e)
                | Inr (Again, st') \<Rightarrow> reduce_loop fuel E c st'
                | Inr (_, st') \<Rightarrow> Some (Inr st'))
          else Some (Inr st))"

subsection \<open>\<open>pAAAReductor.reduce\<close> (lines 76-237)\<close>

text \<open>
  \<open>samples[i, None]\<close> is the slice of the tensor at the index \<open>i\<close> of its first dimension,
  with the shape \<open>1 # tl (shape samples)\<close>; \<open>row_data\<close> gives its entries, which are
  consecutive in row-major order. The indexing raises \<open>IndexError\<close> for a tensor without
  dimensions and for an index out of bounds.
\<close>

definition row_data :: "tensor \<Rightarrow> nat \<Rightarrow> complex list" where
  "row_data t i = (let stride = prod_list (tl (shape t)) in take stride (drop (i * stride) (data t)))"

definition tensor_row :: "tensor \<Rightarrow> nat \<Rightarrow> error + complex list" where
  "tensor_row t i =
     (if shape t = [] \<or> hd (shape t) \<le> i then Inl IndexError else Inr (row_data t i))"

text \<open>
  \<open>np.vstack([samples] + rows)\<close> for rows of the shape \<open>1 # tl (shape samples)\<close>. \<open>np.vstack\<close>
  first makes every operand at least two-dimensional: a tensor of the shape \<open>[n]\<close> becomes
  one of the shape \<open>[1, n]\<close> and each row of the shape \<open>[1]\<close> one of the shape \<open>[1, 1]\<close>. The
  concatenation along the first dimension raises \<open>ValueError\<close> unless the other dimensions
  agree, which for a one-dimensional tensor means \<open>n = 1\<close>.
\<close>

definition vstack :: "tensor \<Rightarrow> complex list list \<Rightarrow> error + tensor" where
  "vstack t rows =
     (if length (shape t) \<le> 1
      then (if rows \<noteq> [] \<and> prod_list (shape t) \<noteq> 1 then Inl ValueError
            else Inr \<lparr>shape = [1 + length rows, 1], data = data t @ concat rows\<rparr>)
      else Inr \<lparr>shape = (hd (shape t) + length rows) # tl (shape t), data = data t @ concat rows\<rparr>)"

text \<open>Lines 104-109: the loop that collects the missing conjugates.\<close>

fun conj_scan ::
  "complex list \<Rightarrow> tensor \<Rightarrow> nat list \<Rightarrow> complex list \<Rightarrow> complex list list
     \<Rightarrow> error + (complex list \<times> complex list list)" where
  "conj_scan svs0 samples [] s_conj_list samples_conj_list = Inr (s_conj_list, samples_conj_list)"
| "conj_scan svs0 samples (i # is) s_conj_list samples_conj_list =
     (let s = svs0 ! i
      in if cnj s \<notin> set svs0
         then (case tensor_row samples i of
                 Inl e \<Rightarrow> Inl e
               | Inr row \<Rightarrow> conj_scan svs0 samples is (s_conj_list @ [cnj s])
                              (samples_conj_list @ [map cnj row]))
         else conj_scan svs0 samples is s_conj_list samples_conj_list)"

text \<open>
  Lines 99-112. \<open>self.sampling_values.copy()\<close> allocates a new list holding the same
  references, \<open>self.samples.copy()\<close> a new tensor; \<open>np.append\<close> and \<open>np.vstack\<close> allocate
  their results, and \<open>svs[0] = \<dots>\<close> stores into the copied list. The result is the heap and
  the addresses bound to the local names \<open>svs\<close> and \<open>samples\<close>. \<open>svs[0]\<close> raises \<open>IndexError\<close>
  for an empty list of sampling values.
\<close>

definition reduce_prepare :: "heap \<Rightarrow> reductor \<Rightarrow> error + (heap \<times> addr \<times> addr)" where
  "reduce_prepare h r =
     (let svs = length (arr_lists h);
          h1 = h\<lparr>arr_lists := arr_lists h @ [arr_lists h ! self_sampling_values r]\<rparr>;
          samples = length (tensors h1);
          h2 = h1\<lparr>tensors := tensors h1 @ [tensors h1 ! self_samples r]\<rparr>
      in if self_conjugate r
         then (if arr_lists h2 ! svs = [] then Inl IndexError
               else (let svs0 = arrays h2 ! (arr_lists h2 ! svs ! 0)
               in case conj_scan svs0 (tensors h2 ! samples) [0..<length svs0] [] [] of
                    Inl e \<Rightarrow> Inl e
                  | Inr (s_conj_list, samples_conj_list) \<Rightarrow>
                      if s_conj_list \<noteq> []
                      then (let new_arr = length (arrays h2);
                                h3 = h2\<lparr>arrays := arrays h2 @ [svs0 @ s_conj_list],
                                        arr_lists := (arr_lists h2)[svs := (arr_lists h2 ! svs)[0 := new_arr]]\<rparr>
                            in case vstack (tensors h3 ! samples) samples_conj_list of
                                 Inl e \<Rightarrow> Inl e
                               | Inr stacked \<Rightarrow>
                                   Inr (h3\<lparr>tensors := tensors h3 @ [stacked]\<rparr>, svs, length (tensors h3)))
                      else Inr (h2, svs, samples)))
         else Inr (h2, svs, samples))"

text \<open>Lines 119-137: the projection of matrix-valued samples. \<open>matvec_last t v\<close> is \<open>t @ v\<close>
  for a vector \<open>v\<close>; the draws are taken from the generator in the order of evaluation.\<close>

definition matvec_last :: "tensor \<Rightarrow> complex list \<Rightarrow> tensor" where
  "matvec_last t v =
     (let n = last (shape t)
      in \<lparr>shape = butlast (shape t),
          data = map (\<lambda>r. sum_list (map (\<lambda>k. data t ! (r * n + k) * v ! k) [0..<n]))
                     [0..<length (data t) div n]\<rparr>)"

definition rng_draw :: "env \<Rightarrow> real \<Rightarrow> nat \<Rightarrow> nat \<Rightarrow> real list" where
  "rng_draw E scale pos n = map (\<lambda>k. scale * rng_normal E (pos + k)) [0..<n]"

definition normalize :: "complex list \<Rightarrow> complex list" where
  "normalize w = map (\<lambda>z. z / of_real (sqrt (sum_list (map (\<lambda>y. (cmod y)\<^sup>2) w)))) w"

definition projection_vectors :: "env \<Rightarrow> complex list \<Rightarrow> nat \<Rightarrow> nat \<Rightarrow> complex list \<times> complex list" where
  "projection_vectors E svs0 dim_output dim_input =
     (if list_ex (\<lambda>s. Im s \<noteq> 0) svs0
      then (let w = map (\<lambda>(a, b). \<i> * of_real a + of_real b)
                      (zip (rng_draw E (sqrt 2 / 2) 0 dim_output)
                           (rng_draw E (sqrt 2 / 2) dim_output dim_output));
                v = map (\<lambda>(a, b). \<i> * of_real a + of_real b)
                      (zip (rng_draw E (sqrt 2 / 2) (2 * dim_output) dim_input)
                           (rng_draw E (sqrt 2 / 2) (2 * dim_output + dim_input) dim_input))
            in (normalize w, normalize v))
      else (let w = map of_real (rng_draw E 1 0 dim_output);
                v = map of_real (rng_draw E 1 dim_output dim_input)
            in (normalize w, normalize v)))"

text \<open>Lines 144-148: a fresh partition of empty lists, or the caller's object itself.\<close>

definition init_partition :: "heap \<Rightarrow> reductor \<Rightarrow> nat \<Rightarrow> addr option \<Rightarrow> error + (heap \<times> reductor)" where
  "init_partition h r num_vars itpl_part =
     (case itpl_part of
        None \<Rightarrow>
          (let n0 = length (int_lists h)
           in Inr (h\<lparr>int_lists := int_lists h @ replicate num_vars [],
                     ref_lists := ref_lists h @ [[n0..<n0 + num_vars]]\<rparr>,
                   r\<lparr>self_itpl_part := Some (length (ref_lists h))\<rparr>))
      | Some a \<Rightarrow>
          if length (ref_lists h ! a) \<noteq> num_vars then Inl AssertionError
          else Inr (h, r\<lparr>self_itpl_part := Some a\<rparr>))"

text \<open>
  Lines 99-158, everything before the loop: the result is the constants and the initial
  state of the loop, together with the unprojected samples and the dimensions
  \<open>dim_input\<close>, \<open>dim_output\<close>.
\<close>

definition reduce_setup ::
  "env \<Rightarrow> heap \<Rightarrow> reductor \<Rightarrow> real \<Rightarrow> addr option \<Rightarrow> int list option
     \<Rightarrow> error + (loop_consts \<times> loop_state \<times> tensor \<times> nat \<times> nat)" where
  "reduce_setup E h r tol itpl_part max_itpl =
     (case reduce_prepare h r of Inl e \<Rightarrow> Inl e
      | Inr (h1, svs_ref, samples_ref) \<Rightarrow>
        (let svs = map (\<lambda>b. arrays h1 ! b) (arr_lists h1 ! svs_ref);
             samples = tensors h1 ! samples_ref;
             num_vars = length svs
         in if data samples = [] then Inl ValueError
            else (let max_samples = Max (set (map cmod (data samples)));
                      rel_tol = tol * max_samples;
                      mimo = (length (shape samples) \<noteq> length svs)
                  in if mimo \<and> length (shape samples) \<noteq> length svs + 2 then Inl AssertionError
                     else (let dim_input = (if mimo then last (shape samples) else 1);
                               dim_output = (if mimo then last (butlast (shape samples)) else 1);
                               samples_T = (if mimo
                                            then (case projection_vectors E (svs ! 0) dim_output dim_input of
                                                    (w, v) \<Rightarrow> matvec_last (matvec_last samples v) w)
                                            else samples)
                           in case init_partition h1 r num_vars itpl_part of
                                Inl e \<Rightarrow> Inl e
                              | Inr (h2, r2) \<Rightarrow>
                                 (let max_itpl' = (case max_itpl of
                                                     None \<Rightarrow> map (\<lambda>s. int (length s) - 1) svs
                                                   | Some m \<Rightarrow> m)
                                  in if length max_itpl' \<noteq> length svs then Inl AssertionError
                                     else Inr (\<lparr>c_svs = svs, c_samples = samples_T,
                                                c_max_samples = max_samples, c_rel_tol = rel_tol,
                                                c_max_itpl = max_itpl'\<rparr>,
                                               \<lparr>st_heap = h2, st_self = r2, st_fit = None, st_j = 0\<rparr>,
                                               samples, dim_input, dim_output))))))"

text \<open>The reduced model: the data of the final \<open>bary_func\<close> and the dimensions given to
  \<open>TransferFunction\<close>.\<close>

record rom =
  rom_dim_input :: nat
  rom_dim_output :: nat
  rom_nodes :: "complex list list"
  rom_vals :: vals
  rom_coefs :: "complex list"
  rom_parametric :: bool

definition gather_mats :: "tensor \<Rightarrow> nat list list \<Rightarrow> nat \<Rightarrow> nat \<Rightarrow> cmat list" where
  "gather_mats samples_orig parts dim_output dim_input =
     map (\<lambda>idx. map (\<lambda>a. map (\<lambda>b. tget samples_orig (idx @ [a, b])) [0..<dim_input]) [0..<dim_output])
         (product_lists parts)"

text \<open>Lines 226-237. The names \<open>itpl_nodes\<close> and \<open>coefs\<close> are bound only inside the loop:
  line 230 raises \<open>UnboundLocalError\<close> (a \<open>NameError\<close>) when no iteration reached line 200.\<close>

definition finalize :: "tensor \<Rightarrow> nat \<Rightarrow> nat \<Rightarrow> loop_state \<Rightarrow> error + (rom \<times> heap \<times> reductor)" where
  "finalize samples_orig dim_input dim_output st =
     (case self_itpl_part (st_self st) of
        None \<Rightarrow> Inl AttributeError
      | Some a \<Rightarrow>
         (let parts = part_of (st_heap st) a;
              mimo = (dim_input \<noteq> 1 \<or> dim_output \<noteq> 1)
          in if mimo \<and> \<not> list_all (\<lambda>(p, n). list_all (\<lambda>k. k < n) p) (zip parts (shape samples_orig))
             then Inl IndexError
             else (case st_fit st of
                     None \<Rightarrow> Inl NameError
                   | Some (itpl_nodes, itpl_samples, coefs) \<Rightarrow>
                       Inr (\<lparr>rom_dim_input = dim_input, rom_dim_output = dim_output,
                             rom_nodes = itpl_nodes,
                             rom_vals = (if mimo
                                         then MIMO dim_output dim_input
                                                (gather_mats samples_orig parts dim_output dim_input)
                                         else SISO itpl_samples),
                             rom_coefs = coefs,
                             rom_parametric = (self_num_vars (st_self st) > 1)\<rparr>,
                            st_heap st, st_self st))))"

text \<open>\<open>reduce\<close>: \<open>None\<close> when the loop has not ended within the fuel, otherwise the
  exception raised or the reduced model with the heap and the reductor after the call.\<close>

definition reduce ::
  "env \<Rightarrow> nat \<Rightarrow> heap \<Rightarrow> reductor \<Rightarrow> real \<Rightarrow> addr option \<Rightarrow> int list option
     \<Rightarrow> (error + (rom \<times> heap \<times> reductor)) option" where
  "reduce E fuel h r tol itpl_part max_itpl =
     (case reduce_setup E h r tol itpl_part max_itpl of
        Inl e \<Rightarrow> Some (Inl e)
      | Inr (c, st0, samples_orig, dim_input, dim_output) \<Rightarrow>
          (case reduce_loop fuel E c st0 of
             None \<Rightarrow> None
           | Some (Inl e) \<Rightarrow> Some (Inl e)
           | Some (Inr st) \<Rightarrow> Some (finalize samples_orig dim_input dim_output st)))"

subsection \<open>Well-formed references and auxiliary notions\<close>

text \<open>The sampling grid that a list of array references denotes.\<close>

definition sampling_grid :: "heap \<Rightarrow> addr \<Rightarrow> complex list list" where
  "sampling_grid h a = map (\<lambda>b. arrays h ! b) (arr_lists h ! a)"

text \<open>The references held by the reductor point to allocated objects, and there is at least
  one variable.\<close>

definition reductor_ok :: "heap \<Rightarrow> reductor \<Rightarrow> bool" where
  "reductor_ok h r \<longleftrightarrow>
     self_sampling_values r < length (arr_lists h)
     \<and> arr_lists h ! self_sampling_values r \<noteq> []
     \<and> list_all (\<lambda>b. b < length (arrays h)) (arr_lists h ! self_sampling_values r)
     \<and> self_samples r < length (tensors h)"

text \<open>The positions of the variable-0 locations whose complex conjugate is not a location.\<close>

definition missing_conj :: "complex list \<Rightarrow> nat list" where
  "missing_conj svs0 = filter (\<lambda>i. cnj (svs0 ! i) \<notin> set svs0) [0..<length svs0]"

text \<open>The interpolation partition at address \<open>a\<close> is a list of \<open>n\<close> references to allocated lists,
  one object per variable (no two variables share a list object).\<close>

definition part_wf :: "heap \<Rightarrow> addr \<Rightarrow> nat \<Rightarrow> bool" where
  "part_wf h a n \<longleftrightarrow>
     a < length (ref_lists h) \<and> length (ref_lists h ! a) = n \<and> distinct (ref_lists h ! a)
     \<and> list_all (\<lambda>b. b < length (int_lists h)) (ref_lists h ! a)"

text \<open>What the loop over the variables (lines 185-193) does to the list of variable \<open>i\<close>, stated
  on lists: nothing if the selected index is already in the list or the list has reached
  its cap; otherwise the index is appended, followed for variable 0 by the first position of
  the conjugate location when \<open>conjugate\<close> is set and the location is not real.\<close>

definition greedy_list_spec ::
  "bool \<Rightarrow> complex list list \<Rightarrow> int list \<Rightarrow> nat list \<Rightarrow> nat \<Rightarrow> nat list \<Rightarrow> nat list" where
  "greedy_list_spec cj svs max_itpl g i p =
     (if g ! i \<in> set p \<or> \<not> int (length p) < max_itpl ! i then p
      else if i = 0 \<and> cj \<and> Im (svs ! 0 ! (g ! 0)) \<noteq> 0
           then p @ [g ! 0, hd (where_eq (svs ! 0) (cnj (svs ! 0 ! (g ! 0))))]
           else p @ [g ! i])"

text \<open>The settings of the reductor are unchanged.\<close>

definition same_config :: "reductor \<Rightarrow> reductor \<Rightarrow> bool" where
  "same_config r r' \<longleftrightarrow>
     self_sampling_values r' = self_sampling_values r \<and> self_samples r' = self_samples r
     \<and> self_conjugate r' = self_conjugate r \<and> self_nsp_tol r' = self_nsp_tol r
     \<and> self_post_process r' = self_post_process r \<and> self_L_rk_tol r' = self_L_rk_tol r
     \<and> self_num_vars r' = self_num_vars r"

text \<open>No array, list of arrays or tensor is changed, and no partition object is allocated.\<close>

definition same_arrays :: "heap \<Rightarrow> heap \<Rightarrow> bool" where
  "same_arrays h h' \<longleftrightarrow>
     arrays h' = arrays h \<and> arr_lists h' = arr_lists h \<and> tensors h' = tensors h
     \<and> length (ref_lists h') = length (ref_lists h)"

text \<open>The projected sample tensor has the shape of the grid and there is one cap per variable.\<close>

definition consts_ok :: "loop_consts \<Rightarrow> bool" where
  "consts_ok c \<longleftrightarrow> shape (c_samples c) = map length (c_svs c)
                 \<and> length (c_max_itpl c) = length (c_svs c)"

text \<open>The number of points that may still be added: the sum over the variables of
  \<open>max_itpl[i] - len(itpl_part[i])\<close>, where positive.\<close>

definition room :: "int list \<Rightarrow> nat list list \<Rightarrow> nat" where
  "room max_itpl parts = sum_list (map (\<lambda>(p, m). nat (m - int (length p))) (zip parts max_itpl))"

text \<open>The data of the current barycentric form were read off the current interpolation
  partition (lines 216-218).\<close>

definition fit_consistent :: "loop_consts \<Rightarrow> loop_state \<Rightarrow> bool" where
  "fit_consistent c st \<longleftrightarrow>
     (case st_fit st of
        None \<Rightarrow> True
      | Some (itpl_nodes, itpl_samples, coefs) \<Rightarrow>
          (case self_itpl_part (st_self st) of
             None \<Rightarrow> False
           | Some a \<Rightarrow>
               itpl_nodes = map (\<lambda>(sv, lp). take_idx sv lp) (zip (c_svs c) (part_of (st_heap st) a))
               \<and> itpl_samples = ix_gather (c_samples c) (part_of (st_heap st) a)))"

text \<open>The size bound on the interpolation partition: at most \<open>max_itpl[i]\<close> entries for the
  variable \<open>i\<close>, and one more for the variable \<open>0\<close> when \<open>conjugate\<close> is set.\<close>

definition size_bound :: "bool \<Rightarrow> int list \<Rightarrow> nat list list \<Rightarrow> bool" where
  "size_bound cj max_itpl parts \<longleftrightarrow>
     list_all (\<lambda>i. int (length (parts ! i)) \<le> max_itpl ! i + (if i = 0 \<and> cj then 1 else 0))
              [0..<length parts]"

subsection \<open>Example data\<close>

text \<open>
  The external routines on the matrices that the example runs below decompose: the
  all-ones \<open>2 \<times> 2\<close> matrix has the singular values \<open>2, 0\<close> and the right singular vectors
  \<open>(1, 1)/\<surd>2\<close> and \<open>(1, -1)/\<surd>2\<close>, the all-ones \<open>4 \<times> 2\<close> matrix has the singular values
  \<open>2\<surd>2, 0\<close> and the same right singular vectors, the all-ones \<open>3 \<times> 3\<close> matrix has the
  singular values \<open>3, 0, 0\<close> and the right singular vectors \<open>(1, 1, 1)/\<surd>3\<close>, \<open>(1, -1, 0)/\<surd>2\<close>
  and \<open>(1, 1, -2)/\<surd>6\<close>; the zero \<open>2 \<times> 1\<close> matrix has the singular value \<open>0\<close>. Any
  other matrix is answered by an empty decomposition, on which the run would raise. A matrix
  with one column has rank \<open>0\<close> if it is zero and rank \<open>1\<close> otherwise. The arithmetic is exact.
\<close>

definition ex_env :: env where
  "ex_env = \<lparr>svd = (\<lambda>L. if L = [[1, 1], [1, 1]]
                           then ([2, 0], [[sqrt 2 / 2, sqrt 2 / 2], [sqrt 2 / 2, - (sqrt 2 / 2)]])
                           else if L = [[1, 1], [1, 1], [1, 1], [1, 1]]
                           then ([2 * sqrt 2, 0], [[sqrt 2 / 2, sqrt 2 / 2], [sqrt 2 / 2, - (sqrt 2 / 2)]])
                           else if L = [[1, 1, 1], [1, 1, 1], [1, 1, 1]]
                           then ([3, 0, 0], [[sqrt 3 / 3, sqrt 3 / 3, sqrt 3 / 3],
                                             [sqrt 2 / 2, - (sqrt 2 / 2), 0],
                                             [sqrt 6 / 6, sqrt 6 / 6, - (sqrt 6 / 3)]])
                           else if L = [[0], [0]] then ([0], [[1]])
                           else ([], [])),
             matrix_rank = (\<lambda>L tol. if list_all (list_all (\<lambda>x. x = 0)) L then 0 else 1),
             rng_normal = (\<lambda>k. 0), fl = exact_arith\<rparr>"

text \<open>A reductor with the default settings of \<open>__init__\<close>, for one variable.\<close>

definition ex_reductor :: reductor where
  "ex_reductor = \<lparr>self_sampling_values = 0, self_samples = 0, self_conjugate = True,
                  self_nsp_tol = 1 / 10 ^ 16, self_post_process = True, self_L_rk_tol = 1 / 10 ^ 8,
                  self_num_vars = 1, self_itpl_part = None, self_logger = []\<rparr>"

text \<open>Samples \<open>2\<i>, 3\<close> at the locations \<open>\<i>, 1\<close>.\<close>

definition ex_heap_conj :: heap where
  "ex_heap_conj = \<lparr>int_lists = [], ref_lists = [], arrays = [[\<i>, 1]], arr_lists = [[0]],
                   tensors = [\<lparr>shape = [2], data = [2 * \<i>, 3]\<rparr>]\<rparr>"

text \<open>
  Example A: one variable, the locations \<open>\<i>, -\<i>, 2\<i>, -2\<i>\<close> and the samples of \<open>f(s) = s\<close>
  there, a reductor with the default settings. \<open>ex_c_A mx\<close> and \<open>ex_st_A\<close> are the constants
  and the initial state of the loop for the cap \<open>mx\<close> (\<open>3\<close> is the default); \<open>ex_st_A1\<close>
  is the state after the first iteration and \<open>ex_rom_A\<close> the reduced model.
\<close>

definition ex_heap_A :: heap where
  "ex_heap_A = \<lparr>int_lists = [], ref_lists = [],
                arrays = [[\<i>, - \<i>, 2 * \<i>, - (2 * \<i>)]], arr_lists = [[0]],
                tensors = [\<lparr>shape = [4], data = [\<i>, - \<i>, 2 * \<i>, - (2 * \<i>)]\<rparr>]\<rparr>"

definition ex_c_A :: "int \<Rightarrow> loop_consts" where
  "ex_c_A mx = \<lparr>c_svs = [[\<i>, - \<i>, 2 * \<i>, - (2 * \<i>)]],
                c_samples = \<lparr>shape = [4], data = [\<i>, - \<i>, 2 * \<i>, - (2 * \<i>)]\<rparr>,
                c_max_samples = 2, c_rel_tol = 2 / 10 ^ 7, c_max_itpl = [mx]\<rparr>"

definition ex_st_A :: loop_state where
  "ex_st_A = \<lparr>st_heap = \<lparr>int_lists = [[]], ref_lists = [[0]],
                          arrays = [[\<i>, - \<i>, 2 * \<i>, - (2 * \<i>)]], arr_lists = [[0], [0]],
                          tensors = [\<lparr>shape = [4], data = [\<i>, - \<i>, 2 * \<i>, - (2 * \<i>)]\<rparr>,
                                     \<lparr>shape = [4], data = [\<i>, - \<i>, 2 * \<i>, - (2 * \<i>)]\<rparr>]\<rparr>,
              st_self = ex_reductor\<lparr>self_itpl_part := Some 0\<rparr>, st_fit = None, st_j = 0\<rparr>"

definition ex_fit_A :: "complex list list \<times> complex list \<times> complex list" where
  "ex_fit_A = ([[2 * \<i>, - (2 * \<i>)]], [2 * \<i>, - (2 * \<i>)],
               [complex_of_real (sqrt 2) / 2, - (complex_of_real (sqrt 2) / 2)])"

definition ex_st_A1 :: loop_state where
  "ex_st_A1 = ex_st_A\<lparr>st_heap := st_heap ex_st_A\<lparr>int_lists := [[2, 3]]\<rparr>,
                      st_self := (st_self ex_st_A)\<lparr>self_logger :=
                         [(INFO, RelativeErrorAtStep 1 1 [0]), (INFO, ConvergedNullSpace)]\<rparr>,
                      st_fit := Some ex_fit_A, st_j := 1\<rparr>"

definition ex_rom_A :: rom where
  "ex_rom_A = \<lparr>rom_dim_input = 1, rom_dim_output = 1, rom_nodes = fst ex_fit_A,
               rom_vals = SISO (fst (snd ex_fit_A)), rom_coefs = snd (snd ex_fit_A),
               rom_parametric = False\<rparr>"

text \<open>
  Example B: two variables, the locations \<open>\<i>, -\<i>, 2\<i>, -2\<i>\<close> and \<open>1, 2, 3\<close>, samples that
  vanish except for the value \<open>12\<close> at the index \<open>(0, 1)\<close>, and the caller's initial partition
  \<open>[[0], [0]]\<close> at address \<open>0\<close>. \<open>ex_c_B\<close> and \<open>ex_st_B\<close> are the constants and the initial
  state of the loop for the default caps.
\<close>

definition ex_heap_B :: heap where
  "ex_heap_B = \<lparr>int_lists = [[0], [0]], ref_lists = [[0, 1]],
                arrays = [[\<i>, - \<i>, 2 * \<i>, - (2 * \<i>)], [1, 2, 3]], arr_lists = [[0, 1]],
                tensors = [\<lparr>shape = [4, 3], data = [0, 12, 0, 0, 0, 0, 0, 0, 0, 0, 0, 0]\<rparr>]\<rparr>"

definition ex_reductor_B :: reductor where
  "ex_reductor_B = ex_reductor\<lparr>self_num_vars := 2\<rparr>"

definition ex_c_B :: loop_consts where
  "ex_c_B = \<lparr>c_svs = [[\<i>, - \<i>, 2 * \<i>, - (2 * \<i>)], [1, 2, 3]],
             c_samples = \<lparr>shape = [4, 3], data = [0, 12, 0, 0, 0, 0, 0, 0, 0, 0, 0, 0]\<rparr>,
             c_max_samples = 12, c_rel_tol = 12 / 10 ^ 7, c_max_itpl = [3, 2]\<rparr>"

definition ex_st_B :: loop_state where
  "ex_st_B = \<lparr>st_heap = \<lparr>int_lists = [[0], [0]], ref_lists = [[0, 1]],
                arrays = [[\<i>, - \<i>, 2 * \<i>, - (2 * \<i>)], [1, 2, 3]], arr_lists = [[0, 1], [0, 1]],
                tensors = [\<lparr>shape = [4, 3], data = [0, 12, 0, 0, 0, 0, 0, 0, 0, 0, 0, 0]\<rparr>,
                           \<lparr>shape = [4, 3], data = [0, 12, 0, 0, 0, 0, 0, 0, 0, 0, 0, 0]\<rparr>]\<rparr>,
              st_self = ex_reductor_B\<lparr>self_itpl_part := Some 0\<rparr>, st_fit = None, st_j = 0\<rparr>"

text \<open>
  Example C: one variable, the locations \<open>1, 2, 3\<close>, constant samples \<open>1\<close>, post-processing
  switched off. \<open>ex_c_C tol\<close> are the constants of the loop for the tolerance \<open>tol\<close>;
  \<open>ex_st_C p fit lg j\<close> is the state of the loop with the partition \<open>[p]\<close>, the barycentric
  data \<open>fit\<close>, the log \<open>lg\<close> and the counter \<open>j\<close>.
\<close>

definition ex_heap_C :: heap where
  "ex_heap_C = \<lparr>int_lists = [], ref_lists = [], arrays = [[1, 2, 3]], arr_lists = [[0]],
                tensors = [\<lparr>shape = [3], data = [1, 1, 1]\<rparr>]\<rparr>"

definition ex_reductor_C :: reductor where
  "ex_reductor_C = ex_reductor\<lparr>self_post_process := False\<rparr>"

definition ex_c_C :: "real \<Rightarrow> loop_consts" where
  "ex_c_C tol = \<lparr>c_svs = [[1, 2, 3]], c_samples = \<lparr>shape = [3], data = [1, 1, 1]\<rparr>,
                 c_max_samples = 1, c_rel_tol = tol, c_max_itpl = [2]\<rparr>"

definition ex_st_C :: "nat list \<Rightarrow> (complex list list \<times> complex list \<times> complex list) option
    \<Rightarrow> (level \<times> message) list \<Rightarrow> nat \<Rightarrow> loop_state" where
  "ex_st_C p fit lg j =
     \<lparr>st_heap = \<lparr>int_lists = [p], ref_lists = [[0]], arrays = [[1, 2, 3]], arr_lists = [[0], [0]],
                  tensors = [\<lparr>shape = [3], data = [1, 1, 1]\<rparr>, \<lparr>shape = [3], data = [1, 1, 1]\<rparr>]\<rparr>,
      st_self = ex_reductor_C\<lparr>self_itpl_part := Some 0, self_logger := lg\<rparr>,
      st_fit = fit, st_j = j\<rparr>"

text \<open>
  Example D: one variable, the locations \<open>1, \<dots>, 6\<close> and the samples of \<open>f(s) = s\<close> there, a
  reductor with the default settings, and the caller's initial partition \<open>[[0, 1]]\<close>: the outer
  list at address \<open>0\<close> of \<open>ref_lists\<close>, the inner list at address \<open>0\<close> of \<open>int_lists\<close>. \<open>ex_c_D\<close>
  and \<open>ex_st_D\<close> are the constants and the initial state of the loop for the default
  arguments, \<open>ex_st_D1\<close> is the state after the first iteration, whose post-processing
  succeeds, and \<open>ex_rom_D\<close> the reduced model.
\<close>

definition ex_heap_D :: heap where
  "ex_heap_D = \<lparr>int_lists = [[0, 1]], ref_lists = [[0]],
                arrays = [[1, 2, 3, 4, 5, 6]], arr_lists = [[0]],
                tensors = [\<lparr>shape = [6], data = [1, 2, 3, 4, 5, 6]\<rparr>]\<rparr>"

definition ex_c_D :: loop_consts where
  "ex_c_D = \<lparr>c_svs = [[1, 2, 3, 4, 5, 6]],
             c_samples = \<lparr>shape = [6], data = [1, 2, 3, 4, 5, 6]\<rparr>,
             c_max_samples = 6, c_rel_tol = 6 / 10 ^ 7, c_max_itpl = [5]\<rparr>"

definition ex_st_D :: loop_state where
  "ex_st_D = \<lparr>st_heap = \<lparr>int_lists = [[0, 1]], ref_lists = [[0]],
                          arrays = [[1, 2, 3, 4, 5, 6]], arr_lists = [[0], [0]],
                          tensors = [\<lparr>shape = [6], data = [1, 2, 3, 4, 5, 6]\<rparr>,
                                     \<lparr>shape = [6], data = [1, 2, 3, 4, 5, 6]\<rparr>]\<rparr>,
              st_self = ex_reductor\<lparr>self_itpl_part := Some 0\<rparr>, st_fit = None, st_j = 0\<rparr>"

definition ex_fit_D :: "complex list list \<times> complex list \<times> complex list" where
  "ex_fit_D = ([[1, 2]], [1, 2], [complex_of_real (sqrt 2) / 2, - (complex_of_real (sqrt 2) / 2)])"

definition ex_st_D1 :: loop_state where
  "ex_st_D1 = ex_st_D\<lparr>st_heap := st_heap ex_st_D\<lparr>int_lists := [[0, 1, 5], [0, 1]], ref_lists := [[1]]\<rparr>,
                      st_self := (st_self ex_st_D)\<lparr>self_logger :=
                         [(INFO, RelativeErrorAtStep 1 (5 / 12) [2]), (INFO, StartingPostProcessing),
                          (INFO, ConvergedNullSpace)]\<rparr>,
                      st_fit := Some ex_fit_D, st_j := 1\<rparr>"

definition ex_rom_D :: rom where
  "ex_rom_D = \<lparr>rom_dim_input = 1, rom_dim_output = 1, rom_nodes = fst ex_fit_D,
               rom_vals = SISO (fst (snd ex_fit_D)), rom_coefs = snd (snd ex_fit_D),
               rom_parametric = False\<rparr>"

section \<open>Properties\<close>

subsection \<open>The entries of \<open>nd_loewner\<close>\<close>




















subsection \<open>The barycentric form at an interpolation node\<close>

lemma first_index_eq:
  assumes "k < length xs" "P (xs ! k)" "\<And>j. j < k \<Longrightarrow> \<not> P (xs ! j)"
  shows "first_index P xs = k"
proof -
  let ?n = "length (takeWhile (\<lambda>x. \<not> P x) xs)"
  have ge: "k \<le> ?n"
    using assms by (intro length_takeWhile_less_P_nth) auto
  have "\<not> k < ?n"
  proof
    assume "k < ?n"
    then have "takeWhile (\<lambda>x. \<not> P x) xs ! k \<in> set (takeWhile (\<lambda>x. \<not> P x) xs)"
      by (rule nth_mem)
    then have "\<not> P (takeWhile (\<lambda>x. \<not> P x) xs ! k)"
      by (rule set_takeWhileD[THEN conjunct2])
    moreover have "takeWhile (\<lambda>x. \<not> P x) xs ! k = xs ! k"
      using \<open>k < ?n\<close> by (rule takeWhile_nth)
    ultimately show False using assms(2) by simp
  qed
  with ge show ?thesis by (simp add: first_index_def)
qed

lemma first_index_props:
  assumes "\<exists>x\<in>set xs. P x"
  shows "first_index P xs < length xs" "P (xs ! first_index P xs)"
    "\<forall>k<first_index P xs. \<not> P (xs ! k)"
proof -
  let ?t = "takeWhile (\<lambda>x. \<not> P x) xs"
  have "?t \<noteq> xs"
    using assms by (auto simp: takeWhile_eq_all_conv)
  then have lt: "length ?t < length xs"
    using length_takeWhile_le[of "\<lambda>x. \<not> P x" xs] takeWhile_eq_take[of "\<lambda>x. \<not> P x" xs]
    by (metis le_neq_implies_less take_all_iff order_refl)
  show "first_index P xs < length xs" using lt by (simp add: first_index_def)
  show "P (xs ! first_index P xs)"
    using nth_length_takeWhile[OF lt] by (simp add: first_index_def)
  show "\<forall>k<first_index P xs. \<not> P (xs ! k)"
  proof (intro allI impI)
    fix k assume k: "k < first_index P xs"
    then have "?t ! k \<in> set ?t" by (simp add: first_index_def)
    then have "\<not> P (?t ! k)" by (rule set_takeWhileD[THEN conjunct2])
    moreover have "?t ! k = xs ! k" using k by (simp add: first_index_def takeWhile_nth)
    ultimately show "\<not> P (xs ! k)" by simp
  qed
qed

lemma argmin_props:
  assumes "xs \<noteq> []"
  shows "argmin xs < length xs" "xs ! argmin xs = Min (set xs)" "\<forall>k<argmin xs. Min (set xs) < xs ! k"
proof -
  have ex: "\<exists>x\<in>set xs. x = Min (set xs)"
    using assms Min_in[of "set xs"] by auto
  note F = first_index_props[OF ex]
  show lt: "argmin xs < length xs" using F(1) by (simp add: argmin_def)
  show "xs ! argmin xs = Min (set xs)" using F(2) by (simp add: argmin_def)
  show "\<forall>k<argmin xs. Min (set xs) < xs ! k"
  proof (intro allI impI)
    fix k assume k: "k < argmin xs"
    then have "xs ! k \<noteq> Min (set xs)" using F(3) by (simp add: argmin_def)
    moreover have "Min (set xs) \<le> xs ! k" using k lt by (intro Min_le) auto
    ultimately show "Min (set xs) < xs ! k" by simp
  qed
qed

lemma nearest_props:
  assumes "nodes \<noteq> []"
  shows "nearest ar nodes x < length nodes"
    and "\<forall>k<length nodes. fl_abs ar (fl_sub ar x (nodes ! nearest ar nodes x))
                            \<le> fl_abs ar (fl_sub ar x (nodes ! k))"
    and "\<forall>k<nearest ar nodes x. fl_abs ar (fl_sub ar x (nodes ! nearest ar nodes x))
                            < fl_abs ar (fl_sub ar x (nodes ! k))"
proof -
  define xs where "xs = map (\<lambda>n. fl_abs ar (fl_sub ar x n)) nodes"
  have ne: "xs \<noteq> []" and len: "length xs = length nodes" using assms by (simp_all add: xs_def)
  have nr: "nearest ar nodes x = argmin xs" by (simp add: nearest_def xs_def)
  note A = argmin_props[OF ne]
  show lt: "nearest ar nodes x < length nodes" using A(1) len nr by simp
  have at: "fl_abs ar (fl_sub ar x (nodes ! nearest ar nodes x)) = Min (set xs)"
    using A(2) lt nr by (simp add: xs_def)
  show "\<forall>k<length nodes. fl_abs ar (fl_sub ar x (nodes ! nearest ar nodes x))
                            \<le> fl_abs ar (fl_sub ar x (nodes ! k))"
  proof (intro allI impI)
    fix k assume k: "k < length nodes"
    then have "xs ! k \<in> set xs" using len by simp
    then have "Min (set xs) \<le> xs ! k" by (intro Min_le) auto
    then show "fl_abs ar (fl_sub ar x (nodes ! nearest ar nodes x)) \<le> fl_abs ar (fl_sub ar x (nodes ! k))"
      using k by (simp add: at xs_def)
  qed
  show "\<forall>k<nearest ar nodes x. fl_abs ar (fl_sub ar x (nodes ! nearest ar nodes x))
                            < fl_abs ar (fl_sub ar x (nodes ! k))"
  proof (intro allI impI)
    fix k assume k: "k < nearest ar nodes x"
    then have "Min (set xs) < xs ! k" using A(3) nr by simp
    then show "fl_abs ar (fl_sub ar x (nodes ! nearest ar nodes x)) < fl_abs ar (fl_sub ar x (nodes ! k))"
      using k lt by (simp add: at xs_def)
  qed
qed

lemma pole_term_selector:
  assumes "k < length nodes" "fl_abs ar (fl_sub ar x (nodes ! k)) < tol"
  shows "pole_term ar tol nodes x = eye1 (length nodes) (nearest ar nodes x)"
proof -
  have "fl_sub ar x (nodes ! k) \<in> set (map (\<lambda>n. fl_sub ar x n) nodes)"
    using assms(1) by simp
  then have "\<exists>y\<in>set (map (\<lambda>n. fl_sub ar x n) nodes). fl_abs ar y < tol"
    using assms(2) by blast
  then have "filter (\<lambda>y. fl_abs ar y < tol) (map (\<lambda>n. fl_sub ar x n) nodes) \<noteq> []"
    by (simp only: filter_empty_conv) blast
  then have "0 < length (filter (\<lambda>y. fl_abs ar y < tol) (map (\<lambda>n. fl_sub ar x n) nodes))"
    by (simp only: length_greater_0_conv not_False_eq_True)
  then show ?thesis
    unfolding pole_term_def Let_def nearest_def by (simp only: if_True length_map map_map comp_def)
qed

lemma pole_term_quotients:
  assumes "\<forall>k<length nodes. \<not> fl_abs ar (fl_sub ar x (nodes ! k)) < tol"
  shows "pole_term ar tol nodes x = map (\<lambda>n. fl_div ar 1 (fl_sub ar x n)) nodes"
proof -
  have "filter (\<lambda>y. fl_abs ar y < tol) (map (\<lambda>n. fl_sub ar x n) nodes) = []"
    using assms by (auto simp: filter_empty_conv in_set_conv_nth)
  then show ?thesis
    unfolding pole_term_def Let_def by (simp add: comp_def)
qed

lemma concat_blocks:
  "concat (map (\<lambda>j. map (\<lambda>t. h j t) [0..<n2]) [0..<n1])
   = map (\<lambda>t. h (t div n2) (t mod n2)) [0..<n1 * n2]"
proof (induction n1)
  case 0
  show ?case by simp
next
  case (Suc n1)
  have "[0..<Suc n1 * n2] = [0..<n1 * n2 + n2]"
    by (simp add: add.commute)
  also have "\<dots> = [0..<n1 * n2] @ [n1 * n2..<n1 * n2 + n2]"
    by (rule upt_add_eq_append) simp
  also have "[n1 * n2..<n1 * n2 + n2] = map (\<lambda>t. t + n1 * n2) [0..<n2]"
    by (simp add: map_add_upt add.commute)
  finally have split: "[0..<Suc n1 * n2] = [0..<n1 * n2] @ map (\<lambda>t. t + n1 * n2) [0..<n2]" .
  have last: "map (\<lambda>t. h (t div n2) (t mod n2)) (map (\<lambda>t. t + n1 * n2) [0..<n2])
              = map (\<lambda>t. h n1 t) [0..<n2]"
    by (simp add: comp_def)
  have "concat (map (\<lambda>j. map (\<lambda>t. h j t) [0..<n2]) [0..<Suc n1])
        = concat (map (\<lambda>j. map (\<lambda>t. h j t) [0..<n2]) [0..<n1]) @ map (\<lambda>t. h n1 t) [0..<n2]"
    by simp
  also have "\<dots> = map (\<lambda>t. h (t div n2) (t mod n2)) [0..<n1 * n2]
                  @ map (\<lambda>t. h (t div n2) (t mod n2)) (map (\<lambda>t. t + n1 * n2) [0..<n2])"
    by (simp only: Suc.IH last)
  also have "\<dots> = map (\<lambda>t. h (t div n2) (t mod n2)) [0..<Suc n1 * n2]"
    by (simp only: split map_append)
  finally show ?case .
qed

lemma kronv_eye1:
  assumes ok: "arith_ok ar" and "k2 < n2"
  shows "kronv ar (eye1 n1 k1) (eye1 n2 k2) = eye1 (n1 * n2) (k1 * n2 + k2)"
proof -
  have mul: "\<And>P Q. fl_mul ar (if P then 1 else 0) (if Q then 1 else 0) = (if P \<and> Q then 1 else 0)"
    using ok by (simp add: arith_ok_def)
  have "kronv ar (eye1 n1 k1) (eye1 n2 k2)
        = concat (map (\<lambda>j. map (\<lambda>t. fl_mul ar (if j = k1 then 1 else 0) (if t = k2 then 1 else 0)) [0..<n2]) [0..<n1])"
    by (simp add: kronv_def eye1_def comp_def)
  also have "\<dots> = map (\<lambda>t. fl_mul ar (if t div n2 = k1 then 1 else 0) (if t mod n2 = k2 then 1 else 0)) [0..<n1 * n2]"
    by (rule concat_blocks)
  also have "\<dots> = eye1 (n1 * n2) (k1 * n2 + k2)"
    unfolding eye1_def
  proof (rule map_cong[OF refl])
    fix t
    have "(t div n2 = k1 \<and> t mod n2 = k2) \<longleftrightarrow> t = k1 * n2 + k2"
    proof
      assume "t div n2 = k1 \<and> t mod n2 = k2"
      then show "t = k1 * n2 + k2"
        using div_mult_mod_eq[of t n2] by simp
    next
      assume "t = k1 * n2 + k2"
      then show "t div n2 = k1 \<and> t mod n2 = k2"
        using assms(2) by simp
    qed
    then show "fl_mul ar (if t div n2 = k1 then 1 else 0) (if t mod n2 = k2 then 1 else 0)
             = (if t = k1 * n2 + k2 then 1 else 0)"
      by (simp only: mul)
  qed
  finally show ?thesis .
qed

lemma ravel_snoc:
  "length ns = length is \<Longrightarrow> ravel (ns @ [n]) (is @ [i]) = ravel ns is * n + i"
  by (induction ns "is" rule: list_induct2) (simp_all add: algebra_simps)

lemma bary_pd_prefix:
  assumes ok: "arith_ok ar"
    and near: "\<And>i. i < length nodes \<Longrightarrow>
           \<exists>k<length (nodes ! i). fl_abs ar (fl_sub ar (args ! i) (nodes ! i ! k)) < tol"
    and ks: "ks = map (\<lambda>i. nearest ar (nodes ! i) (args ! i)) [0..<length nodes]"
    and "j \<le> length nodes"
  shows "fold (\<lambda>i pd. kronv ar pd (pole_term ar tol (nodes ! i) (args ! i))) [0..<j] [1]
         = eye1 (prod_list (map length (take j nodes))) (ravel (map length (take j nodes)) (take j ks))"
  using assms(4)
proof (induction j)
  case 0
  show ?case by (simp add: eye1_def)
next
  case (Suc j)
  have j: "j < length nodes" "j < length ks" using Suc.prems ks by auto
  obtain k where k: "k < length (nodes ! j)" "fl_abs ar (fl_sub ar (args ! j) (nodes ! j ! k)) < tol"
    using near[OF j(1)] by blast
  have ksj: "ks ! j = nearest ar (nodes ! j) (args ! j)" using j ks by simp
  have lt: "ks ! j < length (nodes ! j)"
    unfolding ksj using k(1) by (intro nearest_props(1)) auto
  have IH: "fold (\<lambda>i pd. kronv ar pd (pole_term ar tol (nodes ! i) (args ! i))) [0..<j] [1]
         = eye1 (prod_list (map length (take j nodes))) (ravel (map length (take j nodes)) (take j ks))"
    using Suc.IH j by simp
  have pt: "pole_term ar tol (nodes ! j) (args ! j) = eye1 (length (nodes ! j)) (ks ! j)"
    using pole_term_selector[OF k] ksj by simp
  have "fold (\<lambda>i pd. kronv ar pd (pole_term ar tol (nodes ! i) (args ! i))) [0..<Suc j] [1]
        = kronv ar (eye1 (prod_list (map length (take j nodes))) (ravel (map length (take j nodes)) (take j ks)))
                (eye1 (length (nodes ! j)) (ks ! j))"
    by (simp add: IH pt)
  also have "\<dots> = eye1 (prod_list (map length (take j nodes)) * length (nodes ! j))
                        (ravel (map length (take j nodes)) (take j ks) * length (nodes ! j) + ks ! j)"
    by (rule kronv_eye1[OF ok lt])
  also have "ravel (map length (take j nodes)) (take j ks) * length (nodes ! j) + ks ! j
             = ravel (map length (take (Suc j) nodes)) (take (Suc j) ks)"
    using j by (simp add: take_Suc_conv_app_nth ravel_snoc)
  also have "prod_list (map length (take j nodes)) * length (nodes ! j)
             = prod_list (map length (take (Suc j) nodes))"
    using j by (simp add: take_Suc_conv_app_nth)
  finally show ?case .
qed

lemma bary_pd_at_nodes:
  assumes "arith_ok ar"
    and "\<And>i. i < length nodes \<Longrightarrow>
           \<exists>k<length (nodes ! i). fl_abs ar (fl_sub ar (args ! i) (nodes ! i ! k)) < tol"
    and "ks = map (\<lambda>i. nearest ar (nodes ! i) (args ! i)) [0..<length nodes]"
  shows "bary_pd ar tol nodes args = eye1 (prod_list (map length nodes)) (ravel (map length nodes) ks)"
  using bary_pd_prefix[OF assms, of "length nodes"] assms(3) by (simp add: bary_pd_def)

lemma zip_upt_map:
  "length xs = n \<Longrightarrow> zip xs (map f [0..<n]) = map (\<lambda>j. (xs ! j, f j)) [0..<n]"
  by (rule nth_equalityI) auto

lemma foldl_add_single:
  assumes "arith_ok ar"
  shows "foldl (fl_add ar) 0 (map (\<lambda>j. if j = K then g j else 0) [0..<N]) = (if K < N then g K else 0)"
proof (induction N)
  case 0
  show ?case by simp
next
  case (Suc N)
  have add: "\<And>x. fl_add ar 0 x = x" "\<And>x. fl_add ar x 0 = x"
    using assms by (simp_all add: arith_ok_def)
  show ?case
    by (simp add: Suc.IH add less_Suc_eq)
qed

lemma select_eye1:
  assumes "arith_ok ar" "length coefs = N"
  shows "map (\<lambda>(c, p). fl_mul ar c p) (zip coefs (eye1 N K))
         = map (\<lambda>j. if j = K then coefs ! j else 0) [0..<N]"
proof -
  have mul: "\<And>x. fl_mul ar x 1 = x" "\<And>x. fl_mul ar x 0 = 0"
    using assms(1) by (simp_all add: arith_ok_def)
  show ?thesis
    unfolding eye1_def zip_upt_map[OF assms(2)]
    by (simp add: comp_def if_distrib[of "fl_mul ar _"] mul cong: if_cong)
qed

lemma dot_select:
  assumes ok: "arith_ok ar" and len: "length vs = N"
  shows "dot ar (map (\<lambda>j. if j = K then c j else 0) [0..<N]) vs
         = (if K < N then fl_mul ar (c K) (vs ! K) else 0)"
proof -
  have mul: "\<And>x. fl_mul ar 0 x = 0" using ok by (simp add: arith_ok_def)
  have "zip (map (\<lambda>j. if j = K then c j else 0) [0..<N]) vs
        = map (\<lambda>j. (if j = K then c j else 0, vs ! j)) [0..<N]"
    using len by (intro nth_equalityI) auto
  then have "map (\<lambda>(x, y). fl_mul ar x y) (zip (map (\<lambda>j. if j = K then c j else 0) [0..<N]) vs)
        = map (\<lambda>j. if j = K then fl_mul ar (c j) (vs ! j) else 0) [0..<N]"
    by (simp add: comp_def if_distrib[of "\<lambda>x. fl_mul ar x _"] mul cong: if_cong)
  then show ?thesis
    unfolding dot_def by (simp only: foldl_add_single[OF ok])
qed

lemma dot_eye1:
  assumes ok: "arith_ok ar" and len: "length coefs = N" and K: "K < N"
  shows "dot ar coefs (eye1 N K) = coefs ! K"
  unfolding dot_def select_eye1[OF ok len] foldl_add_single[OF ok] using K by simp

lemma arith_ok_exact: "arith_ok exact_arith"
  by (simp add: arith_ok_def exact_arith_def)

lemma ravel_less:
  assumes "length ks = length ns" "\<And>i. i < length ns \<Longrightarrow> ks ! i < ns ! i"
  shows "ravel ns ks < prod_list ns"
  using assms
proof (induction ks ns rule: list_induct2)
  case Nil
  show ?case by simp
next
  case (Cons k ks n ns)
  have k: "k < n" using Cons.prems[of 0] by simp
  have "\<And>i. i < length ns \<Longrightarrow> ks ! i < ns ! i"
    using Cons.prems[of "Suc _"] by simp
  then have IH: "ravel ns ks < prod_list ns" by (rule Cons.IH)
  have "k * prod_list ns + ravel ns ks < k * prod_list ns + prod_list ns"
    using IH by simp
  also have "\<dots> = Suc k * prod_list ns" by simp
  also have "\<dots> \<le> n * prod_list ns"
    using k by (intro mult_le_mono1) simp
  finally show ?case by simp
qed

text \<open>
  \<^bold>\<open>C4\<close> (as amended). Let every coordinate of the evaluation point lie within
  \<open>removable_singularity_tol\<close> of some node of its variable (in the distances that the code
  computes), let \<open>ks\<close> give for every variable the position of the node nearest to the
  coordinate, the first one if several are equally near, and let \<open>K\<close> be the position of the
  combination \<open>ks\<close> in the (row-major) vector of interpolation values. Then the function
  returned by \<open>make_bary_func\<close> replaces the denominator term of every variable by the one-hot
  selector of its nearest node instead of dividing by the differences, \<open>pd\<close> is the one-hot
  selector of \<open>K\<close>, and the value returned is the quotient \<open>(coefs[K] \<sqdot> v\<^sub>K) / coefs[K]\<close> as the
  machine computes it, for scalar and for matrix-valued interpolation values \<open>v\<close>. In exact
  arithmetic, and for a nonzero coefficient, this is exactly the \<open>K\<close>-th interpolation value.
\<close>

theorem make_bary_func_interpolates:
  assumes "arith_ok ar"
    and "length itpl_nodes \<le> length args"
    and "\<forall>i<length itpl_nodes. \<exists>k<length (itpl_nodes ! i).
           fl_abs ar (fl_sub ar (args ! i) (itpl_nodes ! i ! k)) < tol"
    and "ks = map (\<lambda>i. nearest ar (itpl_nodes ! i) (args ! i)) [0..<length itpl_nodes]"
    and "K = ravel (map length itpl_nodes) ks"
    and "length coefs = prod_list (map length itpl_nodes)"
  shows "(\<forall>i<length itpl_nodes.
            ks ! i < length (itpl_nodes ! i)
            \<and> (\<forall>k<length (itpl_nodes ! i).
                  fl_abs ar (fl_sub ar (args ! i) (itpl_nodes ! i ! (ks ! i)))
                  \<le> fl_abs ar (fl_sub ar (args ! i) (itpl_nodes ! i ! k)))
            \<and> (\<forall>k<ks ! i.
                  fl_abs ar (fl_sub ar (args ! i) (itpl_nodes ! i ! (ks ! i)))
                  < fl_abs ar (fl_sub ar (args ! i) (itpl_nodes ! i ! k)))
            \<and> pole_term ar tol (itpl_nodes ! i) (args ! i) = eye1 (length (itpl_nodes ! i)) (ks ! i))
         \<and> K < length coefs
         \<and> bary_pd ar tol itpl_nodes args = eye1 (length coefs) K
         \<and> (length vs = length coefs \<longrightarrow>
              make_bary_func ar itpl_nodes (SISO vs) coefs tol args
              = Inr [[fl_div ar (fl_mul ar (coefs ! K) (vs ! K)) (coefs ! K)]])
         \<and> (length Ms = length coefs \<longrightarrow>
              make_bary_func ar itpl_nodes (MIMO dim_output dim_input Ms) coefs tol args
              = Inr (map (\<lambda>a. map (\<lambda>b. fl_div ar (fl_mul ar (coefs ! K) (Ms ! K ! a ! b)) (coefs ! K))
                                  [0..<dim_input]) [0..<dim_output]))
         \<and> (ar = exact_arith \<and> coefs ! K \<noteq> 0 \<longrightarrow>
              (length vs = length coefs \<longrightarrow>
                 make_bary_func ar itpl_nodes (SISO vs) coefs tol args = Inr [[vs ! K]])
              \<and> (length Ms = length coefs \<longrightarrow>
                 make_bary_func ar itpl_nodes (MIMO dim_output dim_input Ms) coefs tol args
                 = Inr (map (\<lambda>a. map (\<lambda>b. Ms ! K ! a ! b) [0..<dim_input]) [0..<dim_output])))"
proof -
  let ?N = "length coefs"
  let ?n = "length itpl_nodes"
  have near: "\<And>i. i < ?n \<Longrightarrow> \<exists>k<length (itpl_nodes ! i).
           fl_abs ar (fl_sub ar (args ! i) (itpl_nodes ! i ! k)) < tol"
    using assms(3) by blast
  have ksi: "\<And>i. i < ?n \<Longrightarrow> ks ! i = nearest ar (itpl_nodes ! i) (args ! i)"
    using assms(4) by simp
  have lks: "length ks = ?n" using assms(4) by simp
  have terms: "\<forall>i<?n.
            ks ! i < length (itpl_nodes ! i)
            \<and> (\<forall>k<length (itpl_nodes ! i).
                  fl_abs ar (fl_sub ar (args ! i) (itpl_nodes ! i ! (ks ! i)))
                  \<le> fl_abs ar (fl_sub ar (args ! i) (itpl_nodes ! i ! k)))
            \<and> (\<forall>k<ks ! i.
                  fl_abs ar (fl_sub ar (args ! i) (itpl_nodes ! i ! (ks ! i)))
                  < fl_abs ar (fl_sub ar (args ! i) (itpl_nodes ! i ! k)))
            \<and> pole_term ar tol (itpl_nodes ! i) (args ! i) = eye1 (length (itpl_nodes ! i)) (ks ! i)"
  proof (intro allI impI)
    fix i assume i: "i < ?n"
    obtain k where k: "k < length (itpl_nodes ! i)"
        "fl_abs ar (fl_sub ar (args ! i) (itpl_nodes ! i ! k)) < tol"
      using near[OF i] by blast
    have ne: "itpl_nodes ! i \<noteq> []" using k(1) by auto
    show "ks ! i < length (itpl_nodes ! i)
            \<and> (\<forall>k<length (itpl_nodes ! i).
                  fl_abs ar (fl_sub ar (args ! i) (itpl_nodes ! i ! (ks ! i)))
                  \<le> fl_abs ar (fl_sub ar (args ! i) (itpl_nodes ! i ! k)))
            \<and> (\<forall>k<ks ! i.
                  fl_abs ar (fl_sub ar (args ! i) (itpl_nodes ! i ! (ks ! i)))
                  < fl_abs ar (fl_sub ar (args ! i) (itpl_nodes ! i ! k)))
            \<and> pole_term ar tol (itpl_nodes ! i) (args ! i) = eye1 (length (itpl_nodes ! i)) (ks ! i)"
      unfolding ksi[OF i]
      using nearest_props[OF ne, of ar "args ! i"] pole_term_selector[OF k] by blast
  qed
  have K: "K < ?N"
    unfolding assms(5,6) using lks terms by (intro ravel_less) auto
  have pd: "bary_pd ar tol itpl_nodes args = eye1 ?N K"
    using bary_pd_at_nodes[OF assms(1) near assms(4)] assms(5,6) by simp
  have lpd: "length (eye1 ?N K) = ?N" by (simp add: eye1_def)
  have m: "map (\<lambda>(c, p). fl_mul ar c p) (zip coefs (eye1 ?N K))
           = map (\<lambda>j. if j = K then coefs ! j else 0) [0..<?N]"
    by (rule select_eye1[OF assms(1)]) simp
  have denom: "dot ar coefs (eye1 ?N K) = coefs ! K"
    by (rule dot_eye1[OF assms(1) _ K]) simp
  have args: "\<not> length args < ?n" using assms(2) by simp
  have siso: "make_bary_func ar itpl_nodes (SISO vs) coefs tol args
              = Inr [[fl_div ar (fl_mul ar (coefs ! K) (vs ! K)) (coefs ! K)]]"
    if len: "length vs = ?N" for vs
  proof -
    have "dot ar (map (\<lambda>j. if j = K then coefs ! j else 0) [0..<?N]) vs = fl_mul ar (coefs ! K) (vs ! K)"
      using dot_select[OF assms(1) len, of K "\<lambda>j. coefs ! j"] K by simp
    then show ?thesis
      unfolding make_bary_func_def Let_def pd m denom vals.case if_not_P[OF args] lpd
      using len by simp
  qed
  have mimo: "make_bary_func ar itpl_nodes (MIMO dim_output dim_input Ms) coefs tol args
              = Inr (map (\<lambda>a. map (\<lambda>b. fl_div ar (fl_mul ar (coefs ! K) (Ms ! K ! a ! b)) (coefs ! K))
                                  [0..<dim_input]) [0..<dim_output])"
    if len: "length Ms = ?N" for Ms dim_output dim_input
  proof -
    have "\<And>a b. dot ar (map (\<lambda>j. if j = K then coefs ! j else 0) [0..<?N]) (map (\<lambda>M. M ! a ! b) Ms)
          = fl_mul ar (coefs ! K) (Ms ! K ! a ! b)"
      using dot_select[OF assms(1), of "map (\<lambda>M. M ! _ ! _) Ms" ?N K "\<lambda>j. coefs ! j"] len K by simp
    then show ?thesis
      unfolding make_bary_func_def Let_def pd m denom vals.case if_not_P[OF args] lpd
      using len by simp
  qed
  have exact: "fl_div ar (fl_mul ar (coefs ! K) v) (coefs ! K) = v"
    if "ar = exact_arith" "coefs ! K \<noteq> 0" for v
    using that by (simp add: exact_arith_def)
  have ex: "ar = exact_arith \<and> coefs ! K \<noteq> 0 \<longrightarrow>
              (length vs = length coefs \<longrightarrow>
                 make_bary_func ar itpl_nodes (SISO vs) coefs tol args = Inr [[vs ! K]])
              \<and> (length Ms = length coefs \<longrightarrow>
                 make_bary_func ar itpl_nodes (MIMO dim_output dim_input Ms) coefs tol args
                 = Inr (map (\<lambda>a. map (\<lambda>b. Ms ! K ! a ! b) [0..<dim_input]) [0..<dim_output]))"
  proof (intro impI conjI)
    assume e: "ar = exact_arith \<and> coefs ! K \<noteq> 0" and len: "length vs = length coefs"
    show "make_bary_func ar itpl_nodes (SISO vs) coefs tol args = Inr [[vs ! K]]"
      using siso[OF len] exact[of "vs ! K"] e by simp
  next
    assume e: "ar = exact_arith \<and> coefs ! K \<noteq> 0" and len: "length Ms = length coefs"
    have "\<And>a b. fl_div ar (fl_mul ar (coefs ! K) (Ms ! K ! a ! b)) (coefs ! K) = Ms ! K ! a ! b"
      using exact e by simp
    then show "make_bary_func ar itpl_nodes (MIMO dim_output dim_input Ms) coefs tol args
                 = Inr (map (\<lambda>a. map (\<lambda>b. Ms ! K ! a ! b) [0..<dim_input]) [0..<dim_output])"
      using mimo[OF len] by simp
  qed
  show ?thesis
  proof (intro conjI)
    show "\<forall>i<length itpl_nodes.
            ks ! i < length (itpl_nodes ! i)
            \<and> (\<forall>k<length (itpl_nodes ! i).
                  fl_abs ar (fl_sub ar (args ! i) (itpl_nodes ! i ! (ks ! i)))
                  \<le> fl_abs ar (fl_sub ar (args ! i) (itpl_nodes ! i ! k)))
            \<and> (\<forall>k<ks ! i.
                  fl_abs ar (fl_sub ar (args ! i) (itpl_nodes ! i ! (ks ! i)))
                  < fl_abs ar (fl_sub ar (args ! i) (itpl_nodes ! i ! k)))
            \<and> pole_term ar tol (itpl_nodes ! i) (args ! i) = eye1 (length (itpl_nodes ! i)) (ks ! i)"
      by (rule terms)
    show "K < length coefs" by (rule K)
    show "bary_pd ar tol itpl_nodes args = eye1 (length coefs) K" by (rule pd)
    show "length vs = length coefs \<longrightarrow>
              make_bary_func ar itpl_nodes (SISO vs) coefs tol args
              = Inr [[fl_div ar (fl_mul ar (coefs ! K) (vs ! K)) (coefs ! K)]]"
      using siso by blast
    show "length Ms = length coefs \<longrightarrow>
              make_bary_func ar itpl_nodes (MIMO dim_output dim_input Ms) coefs tol args
              = Inr (map (\<lambda>a. map (\<lambda>b. fl_div ar (fl_mul ar (coefs ! K) (Ms ! K ! a ! b)) (coefs ! K))
                                  [0..<dim_input]) [0..<dim_output])"
      using mimo by blast
    show "ar = exact_arith \<and> coefs ! K \<noteq> 0 \<longrightarrow>
              (length vs = length coefs \<longrightarrow>
                 make_bary_func ar itpl_nodes (SISO vs) coefs tol args = Inr [[vs ! K]])
              \<and> (length Ms = length coefs \<longrightarrow>
                 make_bary_func ar itpl_nodes (MIMO dim_output dim_input Ms) coefs tol args
                 = Inr (map (\<lambda>a. map (\<lambda>b. Ms ! K ! a ! b) [0..<dim_input]) [0..<dim_output]))"
      by (rule ex)
  qed
qed

lemma cmod_near: "cmod (1 + 1 / 10 ^ 15) = 1 + 1 / 10 ^ 15" "cmod (1 / 10 ^ 15) = 1 / 10 ^ 15"
proof -
  have "(1 + 1 / 10 ^ 15 :: complex) = of_real (1 + 1 / 10 ^ 15)" by simp
  then have "cmod (1 + 1 / 10 ^ 15) = cmod (of_real (1 + 1 / 10 ^ 15))" by (simp only:)
  also have "\<dots> = 1 + 1 / 10 ^ 15" by (simp only: norm_of_real) simp
  finally show "cmod (1 + 1 / 10 ^ 15) = 1 + 1 / 10 ^ 15" .
  have "cmod (1 / 10 ^ 15) = cmod (of_real (1 / 10 ^ 15))" by simp
  also have "\<dots> = 1 / 10 ^ 15" by (simp only: norm_of_real) simp
  finally show "cmod (1 / 10 ^ 15) = 1 / 10 ^ 15" .
qed

text \<open>A point that is within the default tolerance of its nodes without being equal to them:
  the nodes \<open>1, 2\<close> and \<open>3, 4\<close>, the point \<open>(2 + 10\<^sup>-\<^sup>1\<^sup>5, 3)\<close>, and a matrix-valued example.\<close>

theorem make_bary_func_interpolates_witness:
  "make_bary_func exact_arith [[1, 2], [3, 4]] (SISO [5, 7, 8, 9]) [1, - 1, 2, 3]
     default_singularity_tol [2 + 1 / 10 ^ 15, 3] = Inr [[8]]
   \<and> make_bary_func exact_arith [[1, 2]] (MIMO 1 2 [[[5, 6]], [[7, 8]]]) [1, - 1]
       default_singularity_tol [2] = Inr [[7, 8]]"
proof -
  have n1: "nearest exact_arith [1, 2] (2 + 1 / 10 ^ 15) = 1"
    by (simp add: nearest_def argmin_def first_index_def exact_arith_def cmod_near)
  have n2: "nearest exact_arith [3, 4] 3 = 0"
    by (simp add: nearest_def argmin_def first_index_def exact_arith_def)
  have n3: "nearest exact_arith [1, 2] 2 = 1"
    by (simp add: nearest_def argmin_def first_index_def exact_arith_def)
  have t1: "fl_abs exact_arith (fl_sub exact_arith (2 + 1 / 10 ^ 15) 2) < default_singularity_tol"
    by (simp add: exact_arith_def default_singularity_tol_def cmod_near)
  have t2: "fl_abs exact_arith (fl_sub exact_arith 3 3) < default_singularity_tol"
    "fl_abs exact_arith (fl_sub exact_arith 2 2) < default_singularity_tol"
    by (simp_all add: exact_arith_def default_singularity_tol_def)
  have h1: "\<forall>i<length ([[1, 2], [3, 4]] :: complex list list). \<exists>k<length ([[1, 2], [3, 4]] ! i).
           fl_abs exact_arith (fl_sub exact_arith ([2 + 1 / 10 ^ 15, 3] ! i) ([[1, 2], [3, 4]] ! i ! k))
           < default_singularity_tol"
  proof (intro allI impI)
    fix i assume "i < length ([[1, 2], [3, 4]] :: complex list list)"
    then consider "i = 0" | "i = 1" by fastforce
    then show "\<exists>k<length ([[1, 2], [3, 4]] ! i).
           fl_abs exact_arith (fl_sub exact_arith ([2 + 1 / 10 ^ 15, 3] ! i) ([[1, 2], [3, 4]] ! i ! k))
           < default_singularity_tol"
    proof cases
      case 1
      show ?thesis unfolding 1 using t1 by (intro exI[of _ 1]) simp
    next
      case 2
      show ?thesis unfolding 2 using t2(1) by (intro exI[of _ 0]) simp
    qed
  qed
  have h2: "\<forall>i<length [[1, 2 :: complex]]. \<exists>k<length ([[1, 2]] ! i).
           fl_abs exact_arith (fl_sub exact_arith ([2] ! i) ([[1, 2]] ! i ! k)) < default_singularity_tol"
  proof (intro allI impI)
    fix i assume "i < length [[1, 2 :: complex]]"
    then have i: "i = 0" by simp
    show "\<exists>k<length ([[1, 2]] ! i).
           fl_abs exact_arith (fl_sub exact_arith ([2] ! i) ([[1, 2]] ! i ! k)) < default_singularity_tol"
      unfolding i using t2(2) by (intro exI[of _ 1]) simp
  qed
  have k1: "[1, 0] = map (\<lambda>i. nearest exact_arith ([[1, 2], [3, 4]] ! i) ([2 + 1 / 10 ^ 15, 3] ! i))
                        [0..<length ([[1, 2], [3, 4]] :: complex list list)]"
    using n1 n2 by (simp add: upt_rec)
  have k2: "[1] = map (\<lambda>i. nearest exact_arith ([[1, 2]] ! i) ([2] ! i)) [0..<length [[1, 2 :: complex]]]"
    using n3 by (simp add: upt_rec)
  note ex = make_bary_func_interpolates[THEN conjunct2, THEN conjunct2, THEN conjunct2,
      THEN conjunct2, THEN conjunct2]
  have a: "make_bary_func exact_arith [[1, 2], [3, 4]] (SISO [5, 7, 8, 9]) [1, - 1, 2, 3]
     default_singularity_tol [2 + 1 / 10 ^ 15, 3] = Inr [[8]]"
    using ex[OF arith_ok_exact _ h1 k1, of 2 "[1, - 1, 2, 3]" "[5, 7, 8, 9]" "[]" 0 0]
    by simp
  have b: "make_bary_func exact_arith [[1, 2]] (MIMO 1 2 [[[5, 6]], [[7, 8]]]) [1, - 1]
       default_singularity_tol [2] = Inr [[7, 8]]"
    using ex[OF arith_ok_exact _ h2 k2, of 1 "[1, - 1]" "[]" "[[[5, 6]], [[7, 8]]]" 1 2]
    by (simp add: upt_rec)
  show ?thesis using a b by simp
qed

text \<open>
  The claim as stated fails when the node of the claim is not the nearest one. For the nodes
  \<open>0\<close> and \<open>10\<^sup>-\<^sup>1\<^sup>5\<close> with the values \<open>5\<close> and \<open>7\<close> and the coefficients \<open>1, 1\<close>, the point
  \<open>3/4 \<sqdot> 10\<^sup>-\<^sup>1\<^sup>5\<close> is within the default tolerance \<open>10\<^sup>-\<^sup>1\<^sup>4\<close> of the node \<open>0\<close>, whose coefficient is
  nonzero, and the value returned is \<open>7\<close>, the value of the other node, not \<open>5\<close>. For the
  nodes \<open>1, 1\<close> the function evaluated at the node of position \<open>1\<close> returns the value of
  position \<open>0\<close>.
\<close>

theorem make_bary_func_interpolates_counterexample:
  "fl_abs exact_arith (fl_sub exact_arith (3 / (4 * 10 ^ 15)) ([0, 1 / 10 ^ 15] ! 0)) < default_singularity_tol
   \<and> [1, 1 :: complex] ! 0 \<noteq> 0
   \<and> make_bary_func exact_arith [[0, 1 / 10 ^ 15]] (SISO [5, 7]) [1, 1] default_singularity_tol
        [3 / (4 * 10 ^ 15)] = Inr [[7]]
   \<and> make_bary_func exact_arith [[0, 1 / 10 ^ 15]] (SISO [5, 7]) [1, 1] default_singularity_tol
        [3 / (4 * 10 ^ 15)] \<noteq> Inr [[[5, 7] ! 0]]
   \<and> make_bary_func exact_arith [[1, 1]] (SISO [5, 7]) [1, 1] default_singularity_tol [[1, 1] ! 1]
       = Inr [[5]]
   \<and> make_bary_func exact_arith [[1, 1]] (SISO [5, 7]) [1, 1] default_singularity_tol [[1, 1] ! 1]
       \<noteq> Inr [[[5, 7] ! 1]]"
proof -
  have d: "cmod (3 / (4 * 10 ^ 15)) = 3 / (4 * 10 ^ 15)"
    "cmod (3 / (4 * 10 ^ 15) - 1 / 10 ^ 15) = 1 / (4 * 10 ^ 15)"
  proof -
    have "cmod (3 / (4 * 10 ^ 15)) = cmod (of_real (3 / (4 * 10 ^ 15)))" by simp
    also have "\<dots> = 3 / (4 * 10 ^ 15)" by (simp only: norm_of_real) simp
    finally show "cmod (3 / (4 * 10 ^ 15)) = 3 / (4 * 10 ^ 15)" .
    have "(3 / (4 * 10 ^ 15) - 1 / 10 ^ 15 :: complex) = of_real (- (1 / (4 * 10 ^ 15)))" by simp
    then have "cmod (3 / (4 * 10 ^ 15) - 1 / 10 ^ 15) = cmod (of_real (- (1 / (4 * 10 ^ 15))))"
      by (simp only:)
    also have "\<dots> = 1 / (4 * 10 ^ 15)" by (simp only: norm_of_real) simp
    finally show "cmod (3 / (4 * 10 ^ 15) - 1 / 10 ^ 15) = 1 / (4 * 10 ^ 15)" .
  qed
  have a: "make_bary_func exact_arith [[0, 1 / 10 ^ 15]] (SISO [5, 7]) [1, 1] default_singularity_tol
        [3 / (4 * 10 ^ 15)] = Inr [[7]]"
    by (simp add: make_bary_func_def bary_pd_def pole_term_def kronv_def dot_def eye1_def
          argmin_def first_index_def exact_arith_def default_singularity_tol_def d Let_def)
  have b: "make_bary_func exact_arith [[1, 1]] (SISO [5, 7]) [1, 1] default_singularity_tol [[1, 1] ! 1]
       = Inr [[5]]"
    by (simp add: make_bary_func_def bary_pd_def pole_term_def kronv_def dot_def eye1_def
          argmin_def first_index_def exact_arith_def default_singularity_tol_def Let_def)
  show ?thesis
    unfolding a b by (simp add: exact_arith_def default_singularity_tol_def d)
qed

subsection \<open>The preparation of \<open>reduce\<close>\<close>

lemma conj_scan_eq:
  "conj_scan svs0 T is acc1 acc2 =
     (if \<forall>i\<in>set (filter (\<lambda>i. cnj (svs0 ! i) \<notin> set svs0) is). shape T \<noteq> [] \<and> i < hd (shape T)
      then Inr (acc1 @ map (\<lambda>i. cnj (svs0 ! i)) (filter (\<lambda>i. cnj (svs0 ! i) \<notin> set svs0) is),
                acc2 @ map (\<lambda>i. map cnj (row_data T i)) (filter (\<lambda>i. cnj (svs0 ! i) \<notin> set svs0) is))
      else Inl IndexError)"
proof (induction "is" arbitrary: acc1 acc2)
  case Nil
  show ?case by simp
next
  case (Cons i "is")
  show ?case
  proof (cases "cnj (svs0 ! i) \<notin> set svs0")
    case False
    then show ?thesis by (auto simp: Cons.IH Let_def)
  next
    case True
    show ?thesis
    proof (cases "shape T = [] \<or> hd (shape T) \<le> i")
      case bad: True
      then show ?thesis using True by (auto simp: Let_def tensor_row_def)
    next
      case good: False
      then have "tensor_row T i = Inr (row_data T i)" by (simp add: tensor_row_def)
      then show ?thesis using True good by (auto simp: Cons.IH Let_def)
    qed
  qed
qed

lemma conj_scan_all:
  "conj_scan svs0 T [0..<length svs0] [] [] =
     (if \<forall>i\<in>set (missing_conj svs0). shape T \<noteq> [] \<and> i < hd (shape T)
      then Inr (map (\<lambda>i. cnj (svs0 ! i)) (missing_conj svs0),
                map (\<lambda>i. map cnj (row_data T i)) (missing_conj svs0))
      else Inl IndexError)"
  by (auto simp: conj_scan_eq missing_conj_def)

lemma missing_conj_values:
  "map (\<lambda>i. cnj (svs0 ! i)) (missing_conj svs0) = map cnj (filter (\<lambda>s. cnj s \<notin> set svs0) svs0)"
proof -
  have "filter (\<lambda>s. cnj s \<notin> set svs0) (map (\<lambda>i. svs0 ! i) [0..<length svs0])
        = map (\<lambda>i. svs0 ! i) (filter (\<lambda>i. cnj (svs0 ! i) \<notin> set svs0) [0..<length svs0])"
    by (simp add: filter_map comp_def)
  then show ?thesis
    by (simp add: missing_conj_def map_nth)
qed

lemma conj_closed:
  fixes svs0 :: "complex list"
  assumes "s \<in> set (svs0 @ map cnj (filter (\<lambda>s. cnj s \<notin> set svs0) svs0))"
  shows "cnj s \<in> set (svs0 @ map cnj (filter (\<lambda>s. cnj s \<notin> set svs0) svs0))"
proof (cases "s \<in> set svs0")
  case True
  then show ?thesis by (cases "cnj s \<in> set svs0") auto
next
  case False
  then obtain t where "t \<in> set svs0" "s = cnj t" using assms by auto
  then show ?thesis by simp
qed

lemma reduce_prepare_frame:
  assumes "reduce_prepare h r = Inr (h', svs_ref, samples_ref)"
  shows "int_lists h' = int_lists h" "ref_lists h' = ref_lists h"
    "svs_ref = length (arr_lists h)"
    "\<forall>a<length (arr_lists h). arr_lists h' ! a = arr_lists h ! a"
    "\<forall>b<length (arrays h). arrays h' ! b = arrays h ! b"
    "\<forall>t<length (tensors h). tensors h' ! t = tensors h ! t"
    "length (arr_lists h) \<le> length (arr_lists h')"
    "length (arrays h) \<le> length (arrays h')"
    "length (tensors h) \<le> length (tensors h')"
    "length (tensors h) \<le> samples_ref"
  using assms
  by (auto simp: reduce_prepare_def Let_def nth_append split: if_splits prod.splits sum.splits)

text \<open>The outcome of lines 99-112 in terms of the stored grid \<open>svs\<close> and the stored tensor \<open>T\<close>.\<close>

lemma reduce_prepare_result:
  assumes ok: "reductor_ok h r"
  defines "svs \<equiv> sampling_grid h (self_sampling_values r)"
    and "T \<equiv> tensors h ! self_samples r"
  defines "mc \<equiv> missing_conj (svs ! 0)"
  shows "\<not> (self_conjugate r \<and> mc \<noteq> []) \<Longrightarrow>
           \<exists>h'. reduce_prepare h r = Inr (h', length (arr_lists h), length (tensors h))
                \<and> tensors h' ! length (tensors h) = T"
    and "self_conjugate r \<Longrightarrow> mc \<noteq> [] \<Longrightarrow> shape T = [] \<or> (\<exists>i\<in>set mc. hd (shape T) \<le> i) \<Longrightarrow>
           reduce_prepare h r = Inl IndexError"
    and "self_conjugate r \<Longrightarrow> mc \<noteq> [] \<Longrightarrow> shape T \<noteq> [] \<Longrightarrow> \<forall>i\<in>set mc. i < hd (shape T) \<Longrightarrow>
           vstack T (map (\<lambda>i. map cnj (row_data T i)) mc) = Inl e \<Longrightarrow>
           reduce_prepare h r = Inl e"
    and "self_conjugate r \<Longrightarrow> mc \<noteq> [] \<Longrightarrow> shape T \<noteq> [] \<Longrightarrow> \<forall>i\<in>set mc. i < hd (shape T) \<Longrightarrow>
           vstack T (map (\<lambda>i. map cnj (row_data T i)) mc) = Inr stacked \<Longrightarrow>
           \<exists>h'. reduce_prepare h r = Inr (h', length (arr_lists h), Suc (length (tensors h)))
                \<and> tensors h' ! Suc (length (tensors h)) = stacked"
proof -
  let ?L = "arr_lists h ! self_sampling_values r"
  have L: "?L \<noteq> []" "self_samples r < length (tensors h)"
    using ok by (auto simp: reductor_ok_def list_all_iff)
  then obtain b0 bs where Lc: "?L = b0 # bs" by (cases ?L) auto
  have svs0: "svs ! 0 = arrays h ! b0"
    by (simp add: svs_def sampling_grid_def Lc)
  have mc0: "map (\<lambda>i. cnj (arrays h ! b0 ! i)) (missing_conj (arrays h ! b0)) = [] \<longleftrightarrow> mc = []"
    by (simp add: mc_def svs0)
  have T: "tensors h ! self_samples r = T" by (simp add: T_def)
  note defs = reduce_prepare_def Let_def Lc nth_append conj_scan_all L(2) T mc0
  show "\<not> (self_conjugate r \<and> mc \<noteq> []) \<Longrightarrow>
           \<exists>h'. reduce_prepare h r = Inr (h', length (arr_lists h), length (tensors h))
                \<and> tensors h' ! length (tensors h) = T"
    using mc0 by (auto simp: defs mc_def svs0)
  show "self_conjugate r \<Longrightarrow> mc \<noteq> [] \<Longrightarrow> shape T = [] \<or> (\<exists>i\<in>set mc. hd (shape T) \<le> i) \<Longrightarrow>
           reduce_prepare h r = Inl IndexError"
    by (auto simp: defs mc_def svs0)
  show "self_conjugate r \<Longrightarrow> mc \<noteq> [] \<Longrightarrow> shape T \<noteq> [] \<Longrightarrow> \<forall>i\<in>set mc. i < hd (shape T) \<Longrightarrow>
           vstack T (map (\<lambda>i. map cnj (row_data T i)) mc) = Inl e \<Longrightarrow>
           reduce_prepare h r = Inl e"
    using mc0 by (auto simp: defs mc_def svs0)
  show "self_conjugate r \<Longrightarrow> mc \<noteq> [] \<Longrightarrow> shape T \<noteq> [] \<Longrightarrow> \<forall>i\<in>set mc. i < hd (shape T) \<Longrightarrow>
           vstack T (map (\<lambda>i. map cnj (row_data T i)) mc) = Inr stacked \<Longrightarrow>
           \<exists>h'. reduce_prepare h r = Inr (h', length (arr_lists h), Suc (length (tensors h)))
                \<and> tensors h' ! Suc (length (tensors h)) = stacked"
    using mc0 by (auto simp: defs mc_def svs0)
qed

lemma reduce_prepare_values:
  assumes ok: "reductor_ok h r" and eq: "reduce_prepare h r = Inr (h', svs_ref, samples_ref)"
  defines "svs \<equiv> sampling_grid h (self_sampling_values r)"
    and "T \<equiv> tensors h ! self_samples r"
  shows "sampling_grid h' svs_ref =
           (if self_conjugate r
            then (svs ! 0 @ map cnj (filter (\<lambda>s. cnj s \<notin> set (svs ! 0)) (svs ! 0))) # tl svs
            else svs)"
    and "(if self_conjugate r \<and> missing_conj (svs ! 0) \<noteq> []
         then vstack T (map (\<lambda>i. map cnj (row_data T i)) (missing_conj (svs ! 0)))
         else Inr T) = Inr (tensors h' ! samples_ref)"
    and "self_conjugate r \<and> missing_conj (svs ! 0) \<noteq> [] \<longrightarrow>
           shape T \<noteq> [] \<and> (\<forall>i\<in>set (missing_conj (svs ! 0)). i < hd (shape T))"
proof -
  let ?L = "arr_lists h ! self_sampling_values r"
  have L: "?L \<noteq> []" "\<forall>b\<in>set ?L. b < length (arrays h)" "self_samples r < length (tensors h)"
    using ok by (auto simp: reductor_ok_def list_all_iff)
  then obtain b0 bs where Lc: "?L = b0 # bs" by (cases ?L) auto
  have b0: "b0 < length (arrays h)" and bs: "\<forall>b\<in>set bs. b < length (arrays h)"
    using L(2) Lc by auto
  have svs: "svs = arrays h ! b0 # map (\<lambda>b. arrays h ! b) bs"
    by (simp add: svs_def sampling_grid_def Lc)
  have mc: "map (\<lambda>i. cnj (arrays h ! b0 ! i)) (missing_conj (arrays h ! b0)) = []
            \<longleftrightarrow> missing_conj (arrays h ! b0) = []"
    by simp
  show "sampling_grid h' svs_ref =
           (if self_conjugate r
            then (svs ! 0 @ map cnj (filter (\<lambda>s. cnj s \<notin> set (svs ! 0)) (svs ! 0))) # tl svs
            else svs)"
    using eq b0 bs L(3)
    by (auto simp: reduce_prepare_def Let_def sampling_grid_def Lc svs nth_append conj_scan_all
          missing_conj_values[symmetric] split: if_splits sum.splits)
  show "(if self_conjugate r \<and> missing_conj (svs ! 0) \<noteq> []
         then vstack T (map (\<lambda>i. map cnj (row_data T i)) (missing_conj (svs ! 0)))
         else Inr T) = Inr (tensors h' ! samples_ref)"
    using eq b0 bs L(3)
    by (auto simp: reduce_prepare_def Let_def Lc svs T_def nth_append conj_scan_all
          split: if_splits sum.splits)
  show "self_conjugate r \<and> missing_conj (svs ! 0) \<noteq> [] \<longrightarrow>
           shape T \<noteq> [] \<and> (\<forall>i\<in>set (missing_conj (svs ! 0)). i < hd (shape T))"
    using eq b0 bs L(3)
    by (auto simp: reduce_prepare_def Let_def Lc svs T_def nth_append conj_scan_all
          split: if_splits sum.splits)
qed

lemma reduce_setup_cases:
  assumes "reduce_setup E h r tol itpl_part max_itpl = Inr (c, st0, samples_orig, dim_input, dim_output)"
  shows "\<exists>h1 svs_ref samples_ref.
           reduce_prepare h r = Inr (h1, svs_ref, samples_ref)
           \<and> c_svs c = sampling_grid h1 svs_ref
           \<and> samples_orig = tensors h1 ! samples_ref
           \<and> data samples_orig \<noteq> []
           \<and> c_max_samples c = Max (set (map cmod (data samples_orig)))
           \<and> c_rel_tol c = tol * c_max_samples c
           \<and> c_max_itpl c = (case max_itpl of None \<Rightarrow> map (\<lambda>s. int (length s) - 1) (c_svs c) | Some m \<Rightarrow> m)
           \<and> length (c_max_itpl c) = length (c_svs c)
           \<and> (length (shape samples_orig) = length (c_svs c) \<longrightarrow>
                 c_samples c = samples_orig \<and> dim_input = 1 \<and> dim_output = 1)
           \<and> (length (shape samples_orig) = length (c_svs c)
                \<or> length (shape samples_orig) = length (c_svs c) + 2)
           \<and> c_samples c =
                 (if length (shape samples_orig) \<noteq> length (c_svs c)
                  then (case projection_vectors E (c_svs c ! 0) (last (butlast (shape samples_orig)))
                               (last (shape samples_orig)) of
                          (w, v) \<Rightarrow> matvec_last (matvec_last samples_orig v) w)
                  else samples_orig)
           \<and> init_partition h1 r (length (c_svs c)) itpl_part = Inr (st_heap st0, st_self st0)
           \<and> st_fit st0 = None \<and> st_j st0 = 0"
proof -
  obtain h1 svs_ref samples_ref where prep: "reduce_prepare h r = Inr (h1, svs_ref, samples_ref)"
    using assms by (cases "reduce_prepare h r") (auto simp: reduce_setup_def)
  define svs where "svs = sampling_grid h1 svs_ref"
  define samples where "samples = tensors h1 ! samples_ref"
  define mi where "mi = (case max_itpl of None \<Rightarrow> map (\<lambda>s. int (length s) - 1) svs | Some m \<Rightarrow> m)"
  note eq = assms[unfolded reduce_setup_def prep sum.case prod.case Let_def,
      folded sampling_grid_def, folded svs_def samples_def, folded mi_def]
  have d: "data samples \<noteq> []"
    using eq by (cases "data samples = []") simp_all
  have a1: "\<not> (length (shape samples) \<noteq> length svs \<and> length (shape samples) \<noteq> length svs + 2)"
    using eq d by (auto split: if_splits)
  obtain h2 r2 where ip: "init_partition h1 r (length svs) itpl_part = Inr (h2, r2)"
    using eq d a1 by (cases "init_partition h1 r (length svs) itpl_part") (auto split: if_splits)
  have a2: "length mi = length svs"
    using eq d a1 ip by (auto split: if_splits)
  have res: "c = \<lparr>c_svs = svs,
                  c_samples = (if length (shape samples) \<noteq> length svs
                               then (case projection_vectors E (svs ! 0) (last (butlast (shape samples)))
                                            (last (shape samples)) of
                                       (w, v) \<Rightarrow> matvec_last (matvec_last samples v) w)
                               else samples),
                  c_max_samples = Max (set (map cmod (data samples))),
                  c_rel_tol = tol * Max (set (map cmod (data samples))),
                  c_max_itpl = mi\<rparr>"
      "st0 = \<lparr>st_heap = h2, st_self = r2, st_fit = None, st_j = 0\<rparr>"
      "samples_orig = samples"
      "dim_input = (if length (shape samples) \<noteq> length svs then last (shape samples) else 1)"
      "dim_output = (if length (shape samples) \<noteq> length svs then last (butlast (shape samples)) else 1)"
    using eq d a1 ip a2 by (auto split: if_splits)
  show ?thesis
    apply (rule exI[of _ h1], rule exI[of _ svs_ref], rule exI[of _ samples_ref])
    using prep d a1 a2 ip by (simp add: res svs_def[symmetric] samples_def[symmetric] mi_def cong: option.case_cong)
qed

subsection \<open>The conjugate augmentation\<close>

text \<open>Whenever the preparation returns, the grid and the samples are augmented as intended.\<close>

lemma conjugate_augmentation_returns:
  assumes "self_conjugate r"
    and "reductor_ok h r"
    and "reduce_setup E h r tol itpl_part max_itpl = Inr (c, st0, samples_aug, dim_input, dim_output)"
  defines "svs \<equiv> sampling_grid h (self_sampling_values r)"
    and "T \<equiv> tensors h ! self_samples r"
  shows "c_svs c = (svs ! 0 @ map cnj (filter (\<lambda>s. cnj s \<notin> set (svs ! 0)) (svs ! 0))) # tl svs"
    and "\<forall>s\<in>set (c_svs c ! 0). cnj s \<in> set (c_svs c ! 0)"
    and "missing_conj (svs ! 0) = [] \<longrightarrow> samples_aug = T"
    and "missing_conj (svs ! 0) \<noteq> [] \<longrightarrow>
           data samples_aug = data T @ concat (map (\<lambda>i. map cnj (row_data T i)) (missing_conj (svs ! 0)))
           \<and> (2 \<le> length (shape T) \<longrightarrow>
                shape samples_aug = (hd (shape T) + length (missing_conj (svs ! 0))) # tl (shape T))
           \<and> (length (shape T) = 1 \<longrightarrow> shape T = [1])"
proof -
  obtain h1 svs_ref samples_ref where prep: "reduce_prepare h r = Inr (h1, svs_ref, samples_ref)"
    and c: "c_svs c = sampling_grid h1 svs_ref" and s: "samples_aug = tensors h1 ! samples_ref"
    using reduce_setup_cases[OF assms(3)] by blast
  note V = reduce_prepare_values[OF assms(2) prep, folded svs_def T_def]
  show grid: "c_svs c = (svs ! 0 @ map cnj (filter (\<lambda>s. cnj s \<notin> set (svs ! 0)) (svs ! 0))) # tl svs"
    using V(1) assms(1) c by simp
  show "\<forall>s\<in>set (c_svs c ! 0). cnj s \<in> set (c_svs c ! 0)"
    unfolding grid nth_Cons_0 using conj_closed by blast
  show "missing_conj (svs ! 0) = [] \<longrightarrow> samples_aug = T"
    using V(2) s by (auto split: if_splits)
  show "missing_conj (svs ! 0) \<noteq> [] \<longrightarrow>
           data samples_aug = data T @ concat (map (\<lambda>i. map cnj (row_data T i)) (missing_conj (svs ! 0)))
           \<and> (2 \<le> length (shape T) \<longrightarrow>
                shape samples_aug = (hd (shape T) + length (missing_conj (svs ! 0))) # tl (shape T))
           \<and> (length (shape T) = 1 \<longrightarrow> shape T = [1])"
  proof
    assume m: "missing_conj (svs ! 0) \<noteq> []"
    then have v: "vstack T (map (\<lambda>i. map cnj (row_data T i)) (missing_conj (svs ! 0))) = Inr samples_aug"
      using V(2) assms(1) s by simp
    have one: "shape T = [1]" if "length (shape T) = 1"
    proof -
      have "length (shape T) = Suc 0" using that by simp
      then obtain n where n: "shape T = [n]" by (auto simp: length_Suc_conv)
      then show ?thesis using v m by (auto simp: vstack_def split: if_splits)
    qed
    show "data samples_aug = data T @ concat (map (\<lambda>i. map cnj (row_data T i)) (missing_conj (svs ! 0)))
           \<and> (2 \<le> length (shape T) \<longrightarrow>
                shape samples_aug = (hd (shape T) + length (missing_conj (svs ! 0))) # tl (shape T))
           \<and> (length (shape T) = 1 \<longrightarrow> shape T = [1])"
      using v one by (auto simp: vstack_def split: if_splits)
  qed
qed

text \<open>For a vector of samples (one variable, scalar values) with more than one entry the
  preparation raises as soon as a conjugate is missing.\<close>

lemma conjugate_augmentation_vector:
  assumes "self_conjugate r"
    and "reductor_ok h r"
    and "shape (tensors h ! self_samples r) = [n]" "n \<noteq> 1"
    and "missing_conj (sampling_grid h (self_sampling_values r) ! 0) \<noteq> []"
    and "\<forall>i\<in>set (missing_conj (sampling_grid h (self_sampling_values r) ! 0)). i < n"
  shows "reduce_prepare h r = Inl ValueError"
    and "reduce E fuel h r tol itpl_part max_itpl = Some (Inl ValueError)"
proof -
  let ?T = "tensors h ! self_samples r"
  let ?mc = "missing_conj (sampling_grid h (self_sampling_values r) ! 0)"
  have v: "vstack ?T (map (\<lambda>i. map cnj (row_data ?T i)) ?mc) = Inl ValueError"
    using assms(3,4,5) by (simp add: vstack_def)
  show p: "reduce_prepare h r = Inl ValueError"
    using reduce_prepare_result(3)[OF assms(2,1,5) _ _ v] assms(3,6) by simp
  show "reduce E fuel h r tol itpl_part max_itpl = Some (Inl ValueError)"
    by (simp add: reduce_def reduce_setup_def p)
qed

text \<open>
  \<^bold>\<open>C6.\<close> The claim fails for a vector of samples. For the samples \<open>2\<i>, 3\<close> at the locations
  \<open>\<i>, 1\<close> of a single variable (no duplicates) and \<open>conjugate = True\<close>, the conjugate \<open>-\<i>\<close> of
  the first location is missing; \<open>samples[0, None]\<close> has the shape \<open>[1]\<close>, \<open>np.vstack\<close> is
  given operands of the shapes \<open>[2]\<close> and \<open>[1]\<close> and raises \<open>ValueError\<close> (line 112). The grid is
  not augmented and the loop does not begin, whatever the tolerance, the initial partition
  and the caps.
\<close>

theorem conjugate_augmentation:
  "reductor_ok ex_heap_conj ex_reductor \<and> self_conjugate ex_reductor
   \<and> sampling_grid ex_heap_conj (self_sampling_values ex_reductor) = [[\<i>, 1]]
   \<and> tensors ex_heap_conj ! self_samples ex_reductor = \<lparr>shape = [2], data = [2 * \<i>, 3]\<rparr>
   \<and> distinct [\<i>, 1] \<and> missing_conj [\<i>, 1] = [0]
   \<and> tensor_row \<lparr>shape = [2], data = [2 * \<i>, 3]\<rparr> 0 = Inr [2 * \<i>]
   \<and> vstack \<lparr>shape = [2], data = [2 * \<i>, 3]\<rparr> [[- (2 * \<i>)]] = Inl ValueError
   \<and> reduce_prepare ex_heap_conj ex_reductor = Inl ValueError
   \<and> reduce E fuel ex_heap_conj ex_reductor tol itpl_part max_itpl = Some (Inl ValueError)"
proof -
  have ok: "reductor_ok ex_heap_conj ex_reductor" "self_conjugate ex_reductor"
    by (simp_all add: reductor_ok_def ex_heap_conj_def ex_reductor_def)
  have g: "sampling_grid ex_heap_conj (self_sampling_values ex_reductor) = [[\<i>, 1]]"
    by (simp add: sampling_grid_def ex_heap_conj_def ex_reductor_def)
  have T: "tensors ex_heap_conj ! self_samples ex_reductor = \<lparr>shape = [2], data = [2 * \<i>, 3]\<rparr>"
    by (simp add: ex_heap_conj_def ex_reductor_def)
  have d: "distinct [\<i>, 1]" by (simp add: complex_eq_iff)
  have mc: "missing_conj [\<i>, 1] = [0]"
    by (simp add: missing_conj_def complex_eq_iff upt_rec)
  have row: "tensor_row \<lparr>shape = [2], data = [2 * \<i>, 3]\<rparr> 0 = Inr [2 * \<i>]"
    by (simp add: tensor_row_def row_data_def)
  have v: "vstack \<lparr>shape = [2], data = [2 * \<i>, 3]\<rparr> [[- (2 * \<i>)]] = Inl ValueError"
    by (simp add: vstack_def)
  have "shape (tensors ex_heap_conj ! self_samples ex_reductor) = [2]" "(2::nat) \<noteq> 1"
    "missing_conj (sampling_grid ex_heap_conj (self_sampling_values ex_reductor) ! 0) \<noteq> []"
    "\<forall>i\<in>set (missing_conj (sampling_grid ex_heap_conj (self_sampling_values ex_reductor) ! 0)). i < 2"
    by (simp_all add: T g mc)
  note R = conjugate_augmentation_vector[OF ok(2,1) this]
  show ?thesis
    using ok g T d mc row v R by simp
qed
subsection \<open>The heap and the greedy loop\<close>

lemma length_part_of: "part_wf h a n \<Longrightarrow> length (part_of h a) = n"
  by (simp add: part_wf_def part_of_def)

lemma part_of_nth: "part_wf h a n \<Longrightarrow> i < n \<Longrightarrow> part_of h a ! i = int_lists h ! (ref_lists h ! a ! i)"
  by (simp add: part_wf_def part_of_def)

lemma list_append_frame:
  "ref_lists (list_append h a i x) = ref_lists h"
  "arrays (list_append h a i x) = arrays h"
  "arr_lists (list_append h a i x) = arr_lists h"
  "tensors (list_append h a i x) = tensors h"
  "length (int_lists (list_append h a i x)) = length (int_lists h)"
  by (simp_all add: list_append_def Let_def)

lemma part_wf_list_append: "part_wf h a n \<Longrightarrow> part_wf (list_append h a i x) a n"
  by (simp add: part_wf_def list_append_frame)

lemma part_of_list_append:
  assumes "part_wf h a n" "i < n"
  shows "part_of (list_append h a i x) a = (part_of h a)[i := part_of h a ! i @ [x]]"
proof (rule nth_equalityI)
  have l1: "length (part_of (list_append h a i x) a) = n"
    using part_wf_list_append[OF assms(1)] by (rule length_part_of)
  have l0: "length (part_of h a) = n" using assms(1) by (rule length_part_of)
  show "length (part_of (list_append h a i x) a) = length ((part_of h a)[i := part_of h a ! i @ [x]])"
    using l0 l1 by simp
  fix k assume "k < length (part_of (list_append h a i x) a)"
  then have k: "k < n" using l1 by simp
  let ?rs = "ref_lists h ! a"
  have rs: "length ?rs = n" "distinct ?rs" "\<forall>b\<in>set ?rs. b < length (int_lists h)"
    using assms(1) by (auto simp: part_wf_def list_all_iff)
  have bi: "?rs ! i < length (int_lists h)" "?rs ! k < length (int_lists h)"
    using rs assms(2) k by auto
  have "(?rs ! k = ?rs ! i) = (k = i)"
    using rs(1,2) k assms(2) by (simp add: nth_eq_iff_index_eq)
  then show "part_of (list_append h a i x) a ! k = (part_of h a)[i := part_of h a ! i @ [x]] ! k"
    using k assms(2) rs(1) bi
    by (auto simp: part_of_def list_append_def Let_def nth_list_update)
qed

lemma greedy_step_part:
  assumes wf: "part_wf h a n" and i: "i < n"
    and step: "greedy_step cj svs max_itpl a g i h = Inr h'"
  shows "part_wf h' a n"
    and "part_of h' a = (part_of h a)[i := greedy_list_spec cj svs max_itpl g i (part_of h a ! i)]"
    and "ref_lists h' = ref_lists h" "arrays h' = arrays h" "arr_lists h' = arr_lists h"
      "tensors h' = tensors h" "length (int_lists h') = length (int_lists h)"
proof -
  let ?p = "part_of h a ! i"
  let ?h1 = "list_append h a i (g ! i)"
  have wf1: "part_wf ?h1 a n" using wf by (rule part_wf_list_append)
  have p1: "part_of ?h1 a = (part_of h a)[i := ?p @ [g ! i]]"
    using wf i by (rule part_of_list_append)
  have len: "length (part_of h a) = n" using wf by (rule length_part_of)
  consider (skip) "g ! i \<in> set ?p \<or> \<not> int (length ?p) < max_itpl ! i"
    | (one) "\<not> (g ! i \<in> set ?p \<or> \<not> int (length ?p) < max_itpl ! i)"
            "\<not> (i = 0 \<and> cj \<and> Im (svs ! i ! (g ! i)) \<noteq> 0)"
    | (two) "\<not> (g ! i \<in> set ?p \<or> \<not> int (length ?p) < max_itpl ! i)"
            "i = 0 \<and> cj \<and> Im (svs ! i ! (g ! i)) \<noteq> 0"
    by blast
  then have "part_wf h' a n
    \<and> part_of h' a = (part_of h a)[i := greedy_list_spec cj svs max_itpl g i (part_of h a ! i)]
    \<and> ref_lists h' = ref_lists h \<and> arrays h' = arrays h \<and> arr_lists h' = arr_lists h
    \<and> tensors h' = tensors h \<and> length (int_lists h') = length (int_lists h)"
  proof cases
    case skip
    then have "h' = h" using step by (auto simp: greedy_step_def Let_def)
    then show ?thesis using skip wf len i by (auto simp: greedy_list_spec_def)
  next
    case one
    then have "h' = ?h1" using step by (auto simp: greedy_step_def Let_def)
    then show ?thesis using one wf1 p1 by (auto simp: greedy_list_spec_def list_append_frame)
  next
    case two
    then obtain ci cs where w: "where_eq (svs ! 0) (cnj (svs ! 0 ! (g ! 0))) = ci # cs"
      and h': "h' = list_append ?h1 a i ci"
      using step by (auto simp: greedy_step_def Let_def split: list.splits)
    have "part_of h' a = (part_of ?h1 a)[i := part_of ?h1 a ! i @ [ci]]"
      unfolding h' using wf1 i by (rule part_of_list_append)
    also have "\<dots> = (part_of h a)[i := ?p @ [g ! i, ci]]"
      using i len by (simp add: p1)
    finally have "part_of h' a = (part_of h a)[i := ?p @ [g ! i, ci]]" .
    moreover have "part_wf h' a n" unfolding h' using wf1 by (rule part_wf_list_append)
    ultimately show ?thesis using two w h' by (auto simp: greedy_list_spec_def list_append_frame)
  qed
  then show "part_wf h' a n"
    and "part_of h' a = (part_of h a)[i := greedy_list_spec cj svs max_itpl g i (part_of h a ! i)]"
    and "ref_lists h' = ref_lists h" "arrays h' = arrays h" "arr_lists h' = arr_lists h"
      "tensors h' = tensors h" "length (int_lists h') = length (int_lists h)"
    by auto
qed

lemma greedy_loop_part:
  assumes "part_wf h a n" "distinct is" "\<forall>i\<in>set is. i < n"
    and "greedy_loop cj svs max_itpl a g is h = Inr h'"
  shows "part_wf h' a n
    \<and> part_of h' a = map (\<lambda>i. if i \<in> set is then greedy_list_spec cj svs max_itpl g i (part_of h a ! i)
                               else part_of h a ! i) [0..<n]
    \<and> ref_lists h' = ref_lists h \<and> arrays h' = arrays h \<and> arr_lists h' = arr_lists h
    \<and> tensors h' = tensors h \<and> length (int_lists h') = length (int_lists h)"
  using assms
proof (induction "is" arbitrary: h)
  case Nil
  then show ?case
    by (auto simp: length_part_of intro!: nth_equalityI)
next
  case (Cons i "is")
  obtain h1 where s: "greedy_step cj svs max_itpl a g i h = Inr h1"
    and l: "greedy_loop cj svs max_itpl a g is h1 = Inr h'"
    using Cons.prems(4) by (auto split: sum.splits)
  have i: "i < n" "i \<notin> set is" using Cons.prems(2,3) by auto
  note st = greedy_step_part[OF Cons.prems(1) i(1) s]
  have IH: "part_wf h' a n
    \<and> part_of h' a = map (\<lambda>k. if k \<in> set is then greedy_list_spec cj svs max_itpl g k (part_of h1 a ! k)
                               else part_of h1 a ! k) [0..<n]
    \<and> ref_lists h' = ref_lists h1 \<and> arrays h' = arrays h1 \<and> arr_lists h' = arr_lists h1
    \<and> tensors h' = tensors h1 \<and> length (int_lists h') = length (int_lists h1)"
    using Cons.IH[OF st(1) _ _ l] Cons.prems(2,3) by simp
  have len: "length (part_of h a) = n" using Cons.prems(1) by (rule length_part_of)
  have "map (\<lambda>k. if k \<in> set is then greedy_list_spec cj svs max_itpl g k (part_of h1 a ! k)
                               else part_of h1 a ! k) [0..<n]
        = map (\<lambda>k. if k \<in> set (i # is) then greedy_list_spec cj svs max_itpl g k (part_of h a ! k)
                               else part_of h a ! k) [0..<n]"
    using i len by (intro map_cong refl) (auto simp: st(2) nth_list_update)
  then show ?case using IH st by simp
qed

lemma length_py_slice_to: "length (py_slice_to xs e) \<le> length xs"
  by (simp add: py_slice_to_def)

lemma set_slice_frame:
  "arrays (set_slice h a i e) = arrays h"
  "arr_lists (set_slice h a i e) = arr_lists h"
  "tensors (set_slice h a i e) = tensors h"
  "length (ref_lists (set_slice h a i e)) = length (ref_lists h)"
  "length (int_lists (set_slice h a i e)) = Suc (length (int_lists h))"
  by (simp_all add: set_slice_def Let_def)

lemma set_slice_part:
  assumes wf: "part_wf h a n" and i: "i < n"
  shows "part_wf (set_slice h a i e) a n"
    and "part_of (set_slice h a i e) a = (part_of h a)[i := py_slice_to (part_of h a ! i) e]"
proof -
  let ?rs = "ref_lists h ! a"
  let ?new = "length (int_lists h)"
  have rs: "a < length (ref_lists h)" "length ?rs = n" "distinct ?rs"
    "\<forall>b\<in>set ?rs. b < ?new"
    using wf by (auto simp: part_wf_def list_all_iff)
  have new: "?new \<notin> set ?rs" using rs(4) by auto
  have rows: "ref_lists (set_slice h a i e) ! a = ?rs[i := ?new]"
    using rs(1) by (simp add: set_slice_def Let_def)
  have "distinct (?rs[i := ?new])"
    using rs(3) new by (simp add: distinct_list_update)
  moreover have "\<forall>b\<in>set (?rs[i := ?new]). b < Suc ?new"
    using rs(4) by (auto dest!: set_update_subset_insert[THEN subsetD] simp: less_Suc_eq)
  ultimately show "part_wf (set_slice h a i e) a n"
    using rs(1,2) by (simp add: part_wf_def rows set_slice_frame list_all_iff)
  show "part_of (set_slice h a i e) a = (part_of h a)[i := py_slice_to (part_of h a ! i) e]"
  proof (rule nth_equalityI)
    show "length (part_of (set_slice h a i e) a) = length ((part_of h a)[i := py_slice_to (part_of h a ! i) e])"
      using rs(2) by (simp add: part_of_def rows)
    fix k assume "k < length (part_of (set_slice h a i e) a)"
    then have k: "k < n" using rs(2) by (simp add: part_of_def rows)
    have "?rs ! k < ?new" using rs(2,4) k by auto
    then show "part_of (set_slice h a i e) a ! k = (part_of h a)[i := py_slice_to (part_of h a ! i) e] ! k"
      using k i rs(1,2)
      by (auto simp: part_of_def set_slice_def Let_def nth_list_update nth_append)
  qed
qed

lemma set_slice_fold:
  assumes "part_wf h a n" "m \<le> n"
  shows "part_wf (fold (\<lambda>i hh. set_slice hh a i (f i)) [0..<m] h) a n
    \<and> part_of (fold (\<lambda>i hh. set_slice hh a i (f i)) [0..<m] h) a
        = map (\<lambda>i. if i < m then py_slice_to (part_of h a ! i) (f i) else part_of h a ! i) [0..<n]
    \<and> arrays (fold (\<lambda>i hh. set_slice hh a i (f i)) [0..<m] h) = arrays h
    \<and> arr_lists (fold (\<lambda>i hh. set_slice hh a i (f i)) [0..<m] h) = arr_lists h
    \<and> tensors (fold (\<lambda>i hh. set_slice hh a i (f i)) [0..<m] h) = tensors h
    \<and> length (ref_lists (fold (\<lambda>i hh. set_slice hh a i (f i)) [0..<m] h)) = length (ref_lists h)"
  using assms(2)
proof (induction m)
  case 0
  show ?case using assms(1) by (auto simp: length_part_of intro!: nth_equalityI)
next
  case (Suc m)
  let ?h = "fold (\<lambda>i hh. set_slice hh a i (f i)) [0..<m] h"
  have IH: "part_wf ?h a n"
    "part_of ?h a = map (\<lambda>i. if i < m then py_slice_to (part_of h a ! i) (f i) else part_of h a ! i) [0..<n]"
    "arrays ?h = arrays h" "arr_lists ?h = arr_lists h" "tensors ?h = tensors h"
    "length (ref_lists ?h) = length (ref_lists h)"
    using Suc by auto
  have m: "m < n" using Suc.prems by simp
  have f: "fold (\<lambda>i hh. set_slice hh a i (f i)) [0..<Suc m] h = set_slice ?h a m (f m)"
    by simp
  have "part_of (set_slice ?h a m (f m)) a
        = map (\<lambda>i. if i < Suc m then py_slice_to (part_of h a ! i) (f i) else part_of h a ! i) [0..<n]"
    unfolding set_slice_part(2)[OF IH(1) m] IH(2)
    using m by (intro nth_equalityI) (auto simp: nth_list_update less_Suc_eq)
  then show ?case
    unfolding f using set_slice_part(1)[OF IH(1) m] IH(3-6) by (simp add: set_slice_frame)
qed

lemma max_ranks_length:
  "max_ranks E samples svs parts tol max_idx is acc = Inr r \<Longrightarrow> length r = length acc + length is"
  by (induction "is" arbitrary: acc) (auto simp: Let_def split: if_splits sum.splits)

lemma post_processing_part:
  assumes wf: "part_wf h a (length svs)"
    and pp: "post_processing E h samples svs a d_nsp tol = Inr (h', res)"
  shows "part_wf h' a (length svs)"
    and "\<forall>i<length svs. length (part_of h' a ! i) \<le> length (part_of h a ! i)"
    and "arrays h' = arrays h" "arr_lists h' = arr_lists h" "tensors h' = tensors h"
    and "length (ref_lists h') = length (ref_lists h)"
    and "res = None \<longrightarrow> h' = h"
    and "\<forall>x. res = Some x \<longrightarrow> snd x = a"
proof -
  let ?n = "length svs"
  let ?parts = "part_of h a"
  let ?max_idx = "argmax (map (\<lambda>ip. real (length ip)) ?parts)"
  obtain max_rks where mr: "max_ranks E samples svs ?parts tol ?max_idx [0..<?n] [] = Inr max_rks"
    using pp by (cases "max_ranks E samples svs ?parts tol ?max_idx [0..<?n] []")
      (auto simp: post_processing_def Let_def)
  have len: "length max_rks = ?n" using max_ranks_length[OF mr] by simp
  let ?denom = "pp_denom ?parts max_rks"
  let ?rks = "max_rks[?max_idx := int (length (?parts ! ?max_idx)) - int d_nsp div ?denom]"
  let ?h = "fold (\<lambda>i hh. set_slice hh a i (?rks ! i + 1)) [0..<length ?rks] h"
  have fold: "part_wf ?h a ?n"
    "part_of ?h a = map (\<lambda>i. if i < ?n then py_slice_to (?parts ! i) (?rks ! i + 1) else ?parts ! i) [0..<?n]"
    "arrays ?h = arrays h" "arr_lists ?h = arr_lists h" "tensors ?h = tensors h"
    "length (ref_lists ?h) = length (ref_lists h)"
    using set_slice_fold[OF wf, of ?n "\<lambda>i. ?rks ! i + 1"] len by auto
  have cases: "(h' = h \<and> res = None) \<or> (h' = ?h \<and> (\<exists>co. res = Some (co, a)))"
    using pp unfolding post_processing_def Let_def mr sum.case
    by (auto split: if_splits sum.splits prod.splits)
  have shrink: "\<forall>i<?n. length (part_of ?h a ! i) \<le> length (?parts ! i)"
    unfolding fold(2) by (simp add: length_py_slice_to)
  show "part_wf h' a ?n" using cases wf fold(1) by auto
  show "\<forall>i<?n. length (part_of h' a ! i) \<le> length (?parts ! i)"
    using cases shrink by auto
  show "arrays h' = arrays h" "arr_lists h' = arr_lists h" "tensors h' = tensors h"
    "length (ref_lists h') = length (ref_lists h)"
    using cases fold(3-6) by auto
  show "res = None \<longrightarrow> h' = h" using cases by auto
  show "\<forall>x. res = Some x \<longrightarrow> snd x = a" using cases by auto
qed

lemma same_config_refl: "same_config r r"
  by (simp add: same_config_def)

lemma same_config_log: "same_config r (log_msg r' l m) = same_config r r'"
  by (simp add: same_config_def log_msg_def)

lemma same_config_itpl: "same_config r (r'\<lparr>self_itpl_part := x\<rparr>) = same_config r r'"
  by (simp add: same_config_def)

lemma same_config_trans: "same_config r r' \<Longrightarrow> same_config r' r'' \<Longrightarrow> same_config r r''"
  by (simp add: same_config_def)

lemma same_arrays_refl: "same_arrays h h"
  by (simp add: same_arrays_def)

lemma same_arrays_trans: "same_arrays h h' \<Longrightarrow> same_arrays h' h'' \<Longrightarrow> same_arrays h h''"
  by (simp add: same_arrays_def)

lemma itpl_log: "self_itpl_part (log_msg r l m) = self_itpl_part r"
  by (simp add: log_msg_def)

lemma nonminimal_props:
  assumes a: "self_itpl_part (st_self st) = Some a"
    and wf: "part_wf (st_heap st) a (length (c_svs c))"
    and nm: "nonminimal E c st coefs d_nsp = Inr (coefs', st')"
  shows "self_itpl_part (st_self st') = Some a"
    and "part_wf (st_heap st') a (length (c_svs c))"
    and "\<forall>i<length (c_svs c). length (part_of (st_heap st') a ! i) \<le> length (part_of (st_heap st) a ! i)"
    and "\<not> (d_nsp > 1 \<and> self_post_process (st_self st)) \<longrightarrow> st_heap st' = st_heap st"
    and "same_arrays (st_heap st) (st_heap st')"
    and "same_config (st_self st) (st_self st')"
    and "st_fit st' = st_fit st" "st_j st' = st_j st"
proof -
  consider (none) "\<not> d_nsp > 1"
    | (warn) "d_nsp > 1" "\<not> self_post_process (st_self st)"
    | (pp) "d_nsp > 1" "self_post_process (st_self st)"
    by blast
  then have "self_itpl_part (st_self st') = Some a
    \<and> part_wf (st_heap st') a (length (c_svs c))
    \<and> (\<forall>i<length (c_svs c). length (part_of (st_heap st') a ! i) \<le> length (part_of (st_heap st) a ! i))
    \<and> (\<not> (d_nsp > 1 \<and> self_post_process (st_self st)) \<longrightarrow> st_heap st' = st_heap st)
    \<and> same_arrays (st_heap st) (st_heap st')
    \<and> same_config (st_self st) (st_self st')
    \<and> st_fit st' = st_fit st \<and> st_j st' = st_j st"
  proof cases
    case none
    then have "st' = st" using nm by (simp add: nonminimal_def Let_def)
    then show ?thesis using a wf by (simp add: same_arrays_refl same_config_refl)
  next
    case warn
    then have "st' = st\<lparr>st_self := log_msg (st_self st) WARNING NonMinimalInterpolant\<rparr>"
      using nm by (simp add: nonminimal_def Let_def)
    then show ?thesis using a wf warn
      by (simp add: same_arrays_refl same_config_refl same_config_log itpl_log)
  next
    case pp
    obtain h' res where ppr: "post_processing E (st_heap st) (c_samples c) (c_svs c) a d_nsp
                                (self_L_rk_tol (st_self st)) = Inr (h', res)"
      using nm pp a
      by (cases "post_processing E (st_heap st) (c_samples c) (c_svs c) a d_nsp (self_L_rk_tol (st_self st))")
         (auto simp: nonminimal_def Let_def)
    note P = post_processing_part[OF wf ppr]
    have h: "st_heap st' = h'"
      and r: "st_self st' = log_msg (log_msg (st_self st) INFO StartingPostProcessing) WARNING PostProcessingFailed
              \<or> st_self st' = (log_msg (st_self st) INFO StartingPostProcessing)\<lparr>self_itpl_part := Some a\<rparr>"
      and o: "st_fit st' = st_fit st" "st_j st' = st_j st"
      using nm pp a ppr P(8) by (auto simp: nonminimal_def Let_def split: option.splits)
    have "self_itpl_part (st_self st') = Some a"
      using r a by (auto simp: itpl_log)
    moreover have "same_config (st_self st) (st_self st')"
      using r by (auto simp: same_config_log same_config_itpl same_config_refl)
    moreover have "same_arrays (st_heap st) (st_heap st')"
      using P(3-6) h by (simp add: same_arrays_def)
    ultimately show ?thesis using P(1,2) h o pp by simp
  qed
  then show "self_itpl_part (st_self st') = Some a"
    and "part_wf (st_heap st') a (length (c_svs c))"
    and "\<forall>i<length (c_svs c). length (part_of (st_heap st') a ! i) \<le> length (part_of (st_heap st) a ! i)"
    and "\<not> (d_nsp > 1 \<and> self_post_process (st_self st)) \<longrightarrow> st_heap st' = st_heap st"
    and "same_arrays (st_heap st) (st_heap st')"
    and "same_config (st_self st) (st_self st')"
    and "st_fit st' = st_fit st" "st_j st' = st_j st"
    by auto
qed

lemma solve_update_props:
  assumes a: "self_itpl_part (st_self st) = Some a"
    and wf: "part_wf (st_heap st) a (length (c_svs c))"
    and su: "solve_update E c st = Inr (out, st')"
  shows "self_itpl_part (st_self st') = Some a"
    and "part_wf (st_heap st') a (length (c_svs c))"
    and "\<forall>i<length (c_svs c). length (part_of (st_heap st') a ! i) \<le> length (part_of (st_heap st) a ! i)"
    and "out = Again \<longrightarrow> st_heap st' = st_heap st"
    and "out \<noteq> Break_tol"
    and "out = Break_nsp \<longrightarrow> self_post_process (st_self st)"
    and "same_arrays (st_heap st) (st_heap st')"
    and "same_config (st_self st) (st_self st')"
    and "st_fit st' \<noteq> None" "st_j st' = st_j st"
proof -
  obtain L where L: "full_nd_loewner (c_samples c) (c_svs c) (part_of (st_heap st) a) = Inr L"
    using su a by (cases "full_nd_loewner (c_samples c) (c_svs c) (part_of (st_heap st) a)")
      (auto simp: solve_update_def)
  obtain S V where sv: "svd E L = (S, V)" by (cases "svd E L") auto
  have S: "S \<noteq> []"
    using su a L sv by (auto simp: solve_update_def Let_def split: if_splits)
  let ?d = "null_dim (self_nsp_tol (st_self st)) S"
  obtain coefs' st1 where nm: "nonminimal E c st (svd_coefs V) ?d = Inr (coefs', st1)"
    using su a L sv S by (cases "nonminimal E c st (svd_coefs V) ?d") (auto simp: solve_update_def Let_def)
  note N = nonminimal_props[OF a wf nm]
  let ?parts = "part_of (st_heap st1) a"
  let ?st2 = "st1\<lparr>st_fit := Some (map (\<lambda>(sv, lp). take_idx sv lp) (zip (c_svs c) ?parts),
                                    ix_gather (c_samples c) ?parts, coefs')\<rparr>"
  have pp: "self_post_process (st_self st1) = self_post_process (st_self st)"
    using N(6) by (simp add: same_config_def)
  have res: "(out = Break_nsp \<and> self_post_process (st_self st) \<and> ?d \<ge> 1
               \<and> st' = ?st2\<lparr>st_self := log_msg (st_self ?st2) INFO ConvergedNullSpace\<rparr>)
           \<or> (out = Again \<and> \<not> (self_post_process (st_self st) \<and> ?d \<ge> 1) \<and> st' = ?st2)"
    using su unfolding solve_update_def a option.case L sum.case sv prod.case Let_def nm N(1)
    using S pp by (auto split: if_splits)
  have again: "out = Again \<longrightarrow> st_heap st' = st_heap st"
    using res N(4) by auto
  show "self_itpl_part (st_self st') = Some a" using res N(1) by (auto simp: itpl_log)
  show "part_wf (st_heap st') a (length (c_svs c))" using res N(2) by auto
  show "\<forall>i<length (c_svs c). length (part_of (st_heap st') a ! i) \<le> length (part_of (st_heap st) a ! i)"
    using res N(3) by auto
  show "out = Again \<longrightarrow> st_heap st' = st_heap st" by (rule again)
  show "out \<noteq> Break_tol" using res by auto
  show "out = Break_nsp \<longrightarrow> self_post_process (st_self st)" using res by auto
  show "same_arrays (st_heap st) (st_heap st')" using res N(5) by auto
  show "same_config (st_self st) (st_self st')" using res N(6) by (auto simp: same_config_log)
  show "st_fit st' \<noteq> None" using res by auto
  show "st_j st' = st_j st" using res N(8) by auto
qed

lemma argmax_props:
  assumes "xs \<noteq> []"
  shows "argmax xs < length xs" "xs ! argmax xs = Max (set xs)" "\<forall>k<argmax xs. xs ! k < Max (set xs)"
proof -
  have ex: "\<exists>x\<in>set xs. x = Max (set xs)"
    using assms Max_in[of "set xs"] by auto
  note F = first_index_props[OF ex]
  show lt: "argmax xs < length xs" using F(1) by (simp add: argmax_def)
  show "xs ! argmax xs = Max (set xs)" using F(2) by (simp add: argmax_def)
  show "\<forall>k<argmax xs. xs ! k < Max (set xs)"
  proof (intro allI impI)
    fix k assume k: "k < argmax xs"
    then have "xs ! k \<noteq> Max (set xs)" using F(3) by (simp add: argmax_def)
    moreover have "xs ! k \<le> Max (set xs)" using k lt by (intro Max_ge) auto
    ultimately show "xs ! k < Max (set xs)" by simp
  qed
qed

lemma reduce_iter_props:
  assumes a: "self_itpl_part (st_self st) = Some a"
    and wf: "part_wf (st_heap st) a (length (c_svs c))"
    and it: "reduce_iter E c st = Inr (out, st')"
  shows "\<exists>masked. masked_errors E c st = Inr masked \<and> masked \<noteq> []
           \<and> (out = Break_tol \<longleftrightarrow> Max (set masked) \<le> c_rel_tol c)
           \<and> (out = Break_tol \<longrightarrow> st_heap st' = st_heap st \<and> st_fit st' = st_fit st)
           \<and> (out \<noteq> Break_tol \<longrightarrow>
                (\<exists>h1. greedy_loop (self_conjugate (st_self st)) (c_svs c) (c_max_itpl c) a
                        (greedy_index c masked) [0..<length (c_svs c)] (st_heap st) = Inr h1
                      \<and> (out = Again \<longrightarrow> st_heap st' = h1)
                      \<and> (\<forall>i<length (c_svs c). length (part_of (st_heap st') a ! i)
                                                 \<le> length (part_of h1 a ! i))
                      \<and> st_fit st' \<noteq> None))"
    and "self_itpl_part (st_self st') = Some a"
    and "part_wf (st_heap st') a (length (c_svs c))"
    and "same_arrays (st_heap st) (st_heap st')"
    and "same_config (st_self st) (st_self st')"
    and "st_j st' = st_j st + 1"
    and "out = Break_nsp \<longrightarrow> self_post_process (st_self st)"
proof -
  obtain masked where m: "masked_errors E c st = Inr masked"
    using it by (cases "masked_errors E c st") (auto simp: reduce_iter_def)
  have ne: "masked \<noteq> []"
    using m a by (auto simp: masked_errors_def Let_def split: if_splits sum.splits)
  let ?err = "Max (set masked)"
  let ?j = "st_j st + 1"
  let ?r1 = "log_msg (st_self st) INFO
               (RelativeErrorAtStep ?j (?err / c_max_samples c) (map length (part_of (st_heap st) a)))"
  note it' = it[unfolded reduce_iter_def m sum.case a option.case Let_def]
  have all: "(\<exists>masked. masked_errors E c st = Inr masked \<and> masked \<noteq> []
           \<and> (out = Break_tol \<longleftrightarrow> Max (set masked) \<le> c_rel_tol c)
           \<and> (out = Break_tol \<longrightarrow> st_heap st' = st_heap st \<and> st_fit st' = st_fit st)
           \<and> (out \<noteq> Break_tol \<longrightarrow>
                (\<exists>h1. greedy_loop (self_conjugate (st_self st)) (c_svs c) (c_max_itpl c) a
                        (greedy_index c masked) [0..<length (c_svs c)] (st_heap st) = Inr h1
                      \<and> (out = Again \<longrightarrow> st_heap st' = h1)
                      \<and> (\<forall>i<length (c_svs c). length (part_of (st_heap st') a ! i)
                                                 \<le> length (part_of h1 a ! i))
                      \<and> st_fit st' \<noteq> None)))
    \<and> self_itpl_part (st_self st') = Some a
    \<and> part_wf (st_heap st') a (length (c_svs c))
    \<and> same_arrays (st_heap st) (st_heap st')
    \<and> same_config (st_self st) (st_self st')
    \<and> st_j st' = st_j st + 1
    \<and> (out = Break_nsp \<longrightarrow> self_post_process (st_self st))"
  proof (cases "?err \<le> c_rel_tol c")
    case True
    then have "out = Break_tol" "st' = st\<lparr>st_self := ?r1, st_j := ?j\<rparr>"
      using it' by auto
    then show ?thesis
      using True m ne a wf by (simp add: itpl_log same_arrays_refl same_config_log same_config_refl)
  next
    case False
    have cj: "self_conjugate ?r1 = self_conjugate (st_self st)" by (simp add: log_msg_def)
    obtain h1 where g: "greedy_loop (self_conjugate (st_self st)) (c_svs c) (c_max_itpl c) a
                          (greedy_index c masked) [0..<length (c_svs c)] (st_heap st) = Inr h1"
      using it' False unfolding cj
      by (cases "greedy_loop (self_conjugate (st_self st)) (c_svs c) (c_max_itpl c) a
                          (greedy_index c masked) [0..<length (c_svs c)] (st_heap st)") auto
    let ?st1 = "st\<lparr>st_heap := h1, st_self := ?r1, st_j := ?j\<rparr>"
    have su: "solve_update E c ?st1 = Inr (out, st')"
      using it' False g unfolding cj by simp
    note G = greedy_loop_part[OF wf _ _ g]
    have wf1: "part_wf (st_heap ?st1) a (length (c_svs c))" using G by simp
    have a1: "self_itpl_part (st_self ?st1) = Some a" using a by (simp add: itpl_log)
    note S = solve_update_props[OF a1 wf1 su]
    have "same_arrays (st_heap st) h1" using G by (simp add: same_arrays_def)
    then have sa: "same_arrays (st_heap st) (st_heap st')"
      using S(7) by (auto intro: same_arrays_trans)
    have sc: "same_config (st_self st) (st_self st')"
      using S(8) by (auto simp: same_config_def log_msg_def)
    have pp: "out = Break_nsp \<longrightarrow> self_post_process (st_self st)"
      using S(6) by (simp add: log_msg_def)
    show ?thesis
      using False m ne g S(1,2,3,4,5,9,10) sa sc pp by auto
  qed
  then show "\<exists>masked. masked_errors E c st = Inr masked \<and> masked \<noteq> []
           \<and> (out = Break_tol \<longleftrightarrow> Max (set masked) \<le> c_rel_tol c)
           \<and> (out = Break_tol \<longrightarrow> st_heap st' = st_heap st \<and> st_fit st' = st_fit st)
           \<and> (out \<noteq> Break_tol \<longrightarrow>
                (\<exists>h1. greedy_loop (self_conjugate (st_self st)) (c_svs c) (c_max_itpl c) a
                        (greedy_index c masked) [0..<length (c_svs c)] (st_heap st) = Inr h1
                      \<and> (out = Again \<longrightarrow> st_heap st' = h1)
                      \<and> (\<forall>i<length (c_svs c). length (part_of (st_heap st') a ! i)
                                                 \<le> length (part_of h1 a ! i))
                      \<and> st_fit st' \<noteq> None))"
    and "self_itpl_part (st_self st') = Some a"
    and "part_wf (st_heap st') a (length (c_svs c))"
    and "same_arrays (st_heap st) (st_heap st')"
    and "same_config (st_self st) (st_self st')"
    and "st_j st' = st_j st + 1"
    and "out = Break_nsp \<longrightarrow> self_post_process (st_self st)"
    by blast+
qed

lemma collect_length: "collect xs = Inr ys \<Longrightarrow> length ys = length xs"
proof (induction xs arbitrary: ys rule: collect.induct)
  case 1
  then show ?case by simp
next
  case (2 e xs)
  then show ?case by simp
next
  case (3 x xs)
  then show ?case by (cases "collect xs") auto
qed

lemma err_mat_length:
  assumes "err_mat ar c fit = Inr errs"
  shows "length errs = length (all_idx (map length (c_svs c)))"
proof -
  obtain vs where vs: "collect (map (\<lambda>idx. bary_value ar fit (c_samples c)
                                   (map (\<lambda>(sv, k). sv ! k) (zip (c_svs c) idx)))
                          (all_idx (map length (c_svs c)))) = Inr vs"
    and e: "errs = map (\<lambda>(v, idx). cmod (v - tget (c_samples c) idx))
                      (zip vs (all_idx (map length (c_svs c))))"
    using assms by (auto simp: err_mat_def split: sum.splits)
  have "length vs = length (all_idx (map length (c_svs c)))"
    using collect_length[OF vs] by simp
  then show ?thesis by (simp add: e)
qed

lemma masked_errorsD:
  assumes "masked_errors E c st = Inr masked" "self_itpl_part (st_self st) = Some a"
  shows "\<exists>errs. err_mat (fl E) c (st_fit st) = Inr errs
            \<and> length errs = length (all_idx (map length (c_svs c)))
            \<and> masked = masked_err_mat c errs (part_of (st_heap st) a) \<and> masked \<noteq> []"
proof -
  obtain errs where e: "err_mat (fl E) c (st_fit st) = Inr errs"
    using assms by (cases "err_mat (fl E) c (st_fit st)") (auto simp: masked_errors_def)
  have "masked = masked_err_mat c errs (part_of (st_heap st) a) \<and> masked \<noteq> []"
    using assms e by (auto simp: masked_errors_def Let_def split: if_splits)
  then show ?thesis using e err_mat_length[OF e] by blast
qed

lemma masked_nth:
  assumes "k < length (all_idx (map length (c_svs c)))"
    and "length errs = length (all_idx (map length (c_svs c)))"
  shows "masked_err_mat c errs parts ! k =
           (if in_product (all_idx (map length (c_svs c)) ! k) (zero_idx c parts) then 0
            else errs ! k)"
  using assms by (simp add: masked_err_mat_def)

lemma length_masked:
  "length errs = length (all_idx (map length (c_svs c)))
   \<Longrightarrow> length (masked_err_mat c errs parts) = length (all_idx (map length (c_svs c)))"
  by (simp add: masked_err_mat_def)

lemma all_idx_nth_bounds:
  assumes "k < length (all_idx shp)"
  shows "length (all_idx shp ! k) = length shp" "\<forall>i<length shp. all_idx shp ! k ! i < shp ! i"
proof -
  have "all_idx shp ! k \<in> set (product_lists (map (\<lambda>n. [0..<n]) shp))"
    using assms by (simp add: all_idx_def)
  then have l: "list_all2 (\<lambda>x ys. x \<in> set ys) (all_idx shp ! k) (map (\<lambda>n. [0..<n]) shp)"
    by (simp add: product_lists_set)
  then show "length (all_idx shp ! k) = length shp"
    by (auto dest: list_all2_lengthD)
  show "\<forall>i<length shp. all_idx shp ! k ! i < shp ! i"
    using l by (auto simp: list_all2_conv_all_nth)
qed

lemma greedy_growth:
  assumes cok: "consts_ok c"
    and a: "self_itpl_part (st_self st) = Some a"
    and m: "masked_errors E c st = Inr masked"
    and pos: "0 < Max (set masked)"
  shows "\<exists>i<length (c_svs c). greedy_index c masked ! i \<notin> set (part_of (st_heap st) a ! i)
            \<and> int (length (part_of (st_heap st) a ! i)) < c_max_itpl c ! i"
proof -
  let ?parts = "part_of (st_heap st) a"
  let ?lens = "map length (c_svs c)"
  let ?n = "length (c_svs c)"
  let ?g = "greedy_index c masked"
  obtain errs where le: "length errs = length (all_idx ?lens)"
    and masked: "masked = masked_err_mat c errs ?parts" and ne: "masked \<noteq> []"
    using masked_errorsD[OF m a] by blast
  note A = argmax_props[OF ne]
  have k: "argmax masked < length (all_idx ?lens)"
    using A(1) by (simp add: masked length_masked[OF le])
  have "masked ! argmax masked \<noteq> 0" using A(2) pos by simp
  then have notin: "\<not> in_product ?g (zero_idx c ?parts)"
    using masked_nth[OF k le, of ?parts] by (auto simp: masked greedy_index_def)
  have g: "length ?g = ?n" "\<forall>i<?n. ?g ! i < length (c_svs c ! i)"
    using all_idx_nth_bounds[OF k] by (auto simp: greedy_index_def)
  have "length (zero_idx c ?parts) = ?n" by (simp add: zero_idx_def)
  then obtain i where i: "i < ?n" "?g ! i \<notin> set (zero_idx c ?parts ! i)"
    using notin g(1) by (auto simp: in_product_def list_all2_conv_all_nth)
  have sh: "shape (c_samples c) ! i = length (c_svs c ! i)"
    using cok i(1) by (simp add: consts_ok_def)
  have "\<not> int (length (?parts ! i)) \<ge> c_max_itpl c ! i"
  proof
    assume "int (length (?parts ! i)) \<ge> c_max_itpl c ! i"
    then have "zero_idx c ?parts ! i = [0..<length (c_svs c ! i)]"
      using i(1) sh by (simp add: zero_idx_def)
    then show False using i g(2) by simp
  qed
  then have "int (length (?parts ! i)) < c_max_itpl c ! i" "zero_idx c ?parts ! i = ?parts ! i"
    using i(1) by (simp_all add: zero_idx_def)
  then show ?thesis using i by auto
qed

lemma length_greedy_list_spec: "length p \<le> length (greedy_list_spec cj svs mx g i p)"
  by (simp add: greedy_list_spec_def)

lemma length_greedy_list_spec_grow:
  "g ! i \<notin> set p \<Longrightarrow> int (length p) < mx ! i \<Longrightarrow> length p < length (greedy_list_spec cj svs mx g i p)"
  by (simp add: greedy_list_spec_def)

lemma room_sum:
  assumes "length parts = n" "length mx = n"
  shows "room mx parts = (\<Sum>i<n. nat (mx ! i - int (length (parts ! i))))"
proof -
  have "map (\<lambda>(p, m). nat (m - int (length p))) (zip parts mx)
        = map (\<lambda>i. nat (mx ! i - int (length (parts ! i)))) [0..<n]"
    using assms by (intro nth_equalityI) auto
  then show ?thesis
    by (simp add: room_def sum_list_sum_nth atLeast0LessThan)
qed

lemma has_room_iff:
  assumes "length parts = n" "length mx = n"
  shows "has_room mx parts \<longleftrightarrow> (\<exists>i<n. int (length (parts ! i)) < mx ! i)"
  using assms by (auto simp: has_room_def list_ex_iff set_zip)

lemma room_decreases:
  assumes len: "length parts = n" "length parts' = n" "length mx = n"
    and mono: "\<forall>i<n. length (parts ! i) \<le> length (parts' ! i)"
    and grow: "\<exists>i<n. int (length (parts ! i)) < mx ! i \<and> length (parts ! i) < length (parts' ! i)"
  shows "room mx parts' < room mx parts"
proof -
  have "(\<Sum>i<n. nat (mx ! i - int (length (parts' ! i)))) < (\<Sum>i<n. nat (mx ! i - int (length (parts ! i))))"
  proof (rule sum_strict_mono_ex1)
    show "finite {..<n}" by simp
    show "\<forall>i\<in>{..<n}. nat (mx ! i - int (length (parts' ! i))) \<le> nat (mx ! i - int (length (parts ! i)))"
      using mono by auto
    show "\<exists>i\<in>{..<n}. nat (mx ! i - int (length (parts' ! i))) < nat (mx ! i - int (length (parts ! i)))"
      using grow by auto
  qed
  then show ?thesis
    using room_sum[OF len(1,3)] room_sum[OF len(2,3)] by simp
qed

lemma again_step:
  assumes cok: "consts_ok c" and tol: "0 \<le> c_rel_tol c"
    and a: "self_itpl_part (st_self st) = Some a"
    and wf: "part_wf (st_heap st) a (length (c_svs c))"
    and it: "reduce_iter E c st = Inr (Again, st')"
  shows "\<forall>i<length (c_svs c). length (part_of (st_heap st) a ! i) \<le> length (part_of (st_heap st') a ! i)"
    and "\<exists>i<length (c_svs c). int (length (part_of (st_heap st) a ! i)) < c_max_itpl c ! i
            \<and> length (part_of (st_heap st) a ! i) < length (part_of (st_heap st') a ! i)"
    and "room (c_max_itpl c) (part_of (st_heap st') a) < room (c_max_itpl c) (part_of (st_heap st) a)"
proof -
  let ?n = "length (c_svs c)"
  let ?parts = "part_of (st_heap st) a"
  note R = reduce_iter_props[OF a wf it]
  obtain masked where m: "masked_errors E c st = Inr masked" and ne: "masked \<noteq> []"
    and err: "\<not> Max (set masked) \<le> c_rel_tol c"
    and g: "greedy_loop (self_conjugate (st_self st)) (c_svs c) (c_max_itpl c) a
              (greedy_index c masked) [0..<?n] (st_heap st) = Inr (st_heap st')"
    using R(1) by auto
  note G = greedy_loop_part[OF wf _ _ g]
  have parts': "\<forall>i<?n. part_of (st_heap st') a ! i
        = greedy_list_spec (self_conjugate (st_self st)) (c_svs c) (c_max_itpl c) (greedy_index c masked) i (?parts ! i)"
    using G by simp
  show mono: "\<forall>i<?n. length (?parts ! i) \<le> length (part_of (st_heap st') a ! i)"
    using parts' by (simp add: length_greedy_list_spec)
  have pos: "0 < Max (set masked)" using err tol by simp
  obtain i where i: "i < ?n" "greedy_index c masked ! i \<notin> set (?parts ! i)"
    "int (length (?parts ! i)) < c_max_itpl c ! i"
    using greedy_growth[OF cok a m pos] by blast
  then have "length (?parts ! i) < length (part_of (st_heap st') a ! i)"
    using parts' by (simp add: length_greedy_list_spec_grow)
  then show grow: "\<exists>i<?n. int (length (?parts ! i)) < c_max_itpl c ! i
            \<and> length (?parts ! i) < length (part_of (st_heap st') a ! i)"
    using i by blast
  have l0: "length ?parts = ?n" using wf by (rule length_part_of)
  have l1: "length (part_of (st_heap st') a) = ?n" using R(3) by (rule length_part_of)
  have l2: "length (c_max_itpl c) = ?n" using cok by (simp add: consts_ok_def)
  show "room (c_max_itpl c) (part_of (st_heap st') a) < room (c_max_itpl c) ?parts"
    using room_decreases[OF l0 l1 l2 mono grow] .
qed

lemma reduce_loop_terminates:
  assumes cok: "consts_ok c" and tol: "0 \<le> c_rel_tol c"
  shows "self_itpl_part (st_self st) = Some a \<Longrightarrow> part_wf (st_heap st) a (length (c_svs c))
         \<Longrightarrow> room (c_max_itpl c) (part_of (st_heap st) a) < fuel
         \<Longrightarrow> reduce_loop fuel E c st \<noteq> None"
proof (induction fuel arbitrary: st)
  case 0
  then show ?case by simp
next
  case (Suc fuel)
  show ?case
  proof (cases "has_room (c_max_itpl c) (part_of (st_heap st) a)")
    case False
    then show ?thesis using Suc.prems(1) by simp
  next
    case True
    show ?thesis
    proof (cases "reduce_iter E c st")
      case (Inl e)
      then show ?thesis using True Suc.prems(1) by simp
    next
      case (Inr res)
      obtain out st' where res: "res = (out, st')" by (cases res)
      show ?thesis
      proof (cases out)
        case Again
        have it: "reduce_iter E c st = Inr (Again, st')" using Inr res Again by simp
        note R = reduce_iter_props[OF Suc.prems(1,2) it]
        have "room (c_max_itpl c) (part_of (st_heap st') a) < fuel"
          using again_step(3)[OF cok tol Suc.prems(1,2) it] Suc.prems(3) by simp
        then have "reduce_loop fuel E c st' \<noteq> None"
          using Suc.IH[OF R(2,3)] by simp
        then show ?thesis using True Suc.prems(1) it by simp
      qed (use True Suc.prems(1) Inr res in simp_all)
    qed
  qed
qed

subsection \<open>What an iteration leaves unchanged\<close>

lemma greedy_step_frame:
  assumes "greedy_step cj svs max_itpl a g i h = Inr h'"
  shows "same_arrays h h'"
  using assms
  by (auto simp: greedy_step_def Let_def same_arrays_def list_append_frame split: if_splits list.splits)

lemma greedy_loop_frame:
  "greedy_loop cj svs max_itpl a g is h = Inr h' \<Longrightarrow> same_arrays h h'"
proof (induction "is" arbitrary: h)
  case Nil
  then show ?case by (simp add: same_arrays_refl)
next
  case (Cons i "is")
  then obtain h1 where "greedy_step cj svs max_itpl a g i h = Inr h1"
    "greedy_loop cj svs max_itpl a g is h1 = Inr h'"
    by (auto split: sum.splits)
  then show ?case
    using Cons.IH greedy_step_frame by (blast intro: same_arrays_trans)
qed

lemma set_slice_fold_frame:
  "same_arrays h (fold (\<lambda>i hh. set_slice hh a i (f i)) is h)"
proof (induction "is" arbitrary: h)
  case Nil
  show ?case by (simp add: same_arrays_refl)
next
  case (Cons i "is")
  have "same_arrays h (set_slice h a i (f i))"
    by (simp add: same_arrays_def set_slice_frame)
  then show ?case using Cons.IH by (auto intro: same_arrays_trans)
qed

lemma post_processing_frame:
  assumes "post_processing E h samples svs a d_nsp tol = Inr (h', res)"
  shows "same_arrays h h'" "\<forall>x. res = Some x \<longrightarrow> snd x = a"
proof -
  let ?parts = "part_of h a"
  let ?max_idx = "argmax (map (\<lambda>ip. real (length ip)) ?parts)"
  obtain max_rks where mr: "max_ranks E samples svs ?parts tol ?max_idx [0..<length svs] [] = Inr max_rks"
    using assms by (cases "max_ranks E samples svs ?parts tol ?max_idx [0..<length svs] []")
      (auto simp: post_processing_def Let_def)
  let ?rks = "max_rks[?max_idx := int (length (?parts ! ?max_idx)) - int d_nsp div pp_denom ?parts max_rks]"
  let ?h = "fold (\<lambda>i hh. set_slice hh a i (?rks ! i + 1)) [0..<length ?rks] h"
  have cases: "(h' = h \<and> res = None) \<or> (h' = ?h \<and> (\<exists>co. res = Some (co, a)))"
    using assms unfolding post_processing_def Let_def mr sum.case
    by (auto split: if_splits sum.splits prod.splits)
  show "same_arrays h h'"
    using cases set_slice_fold_frame[of h a "\<lambda>i. ?rks ! i + 1"] by (auto simp: same_arrays_refl)
  show "\<forall>x. res = Some x \<longrightarrow> snd x = a" using cases by auto
qed

lemma nonminimal_frame:
  assumes "nonminimal E c st coefs d_nsp = Inr (coefs', st')"
  shows "same_arrays (st_heap st) (st_heap st')" "same_config (st_self st) (st_self st')"
    "self_itpl_part (st_self st') = self_itpl_part (st_self st)"
proof -
  consider (none) "\<not> d_nsp > 1"
    | (warn) "d_nsp > 1" "\<not> self_post_process (st_self st)"
    | (pp) "d_nsp > 1" "self_post_process (st_self st)"
    by blast
  then have "same_arrays (st_heap st) (st_heap st') \<and> same_config (st_self st) (st_self st')
    \<and> self_itpl_part (st_self st') = self_itpl_part (st_self st)"
  proof cases
    case none
    then have "st' = st" using assms by (simp add: nonminimal_def Let_def)
    then show ?thesis by (simp add: same_arrays_refl same_config_refl)
  next
    case warn
    then have "st' = st\<lparr>st_self := log_msg (st_self st) WARNING NonMinimalInterpolant\<rparr>"
      using assms by (simp add: nonminimal_def Let_def)
    then show ?thesis
      by (simp add: same_arrays_refl same_config_refl same_config_log itpl_log)
  next
    case pp
    obtain a where a: "self_itpl_part (st_self st) = Some a"
      using assms pp by (cases "self_itpl_part (st_self st)") (auto simp: nonminimal_def Let_def)
    obtain h' res where ppr: "post_processing E (st_heap st) (c_samples c) (c_svs c) a d_nsp
                                (self_L_rk_tol (st_self st)) = Inr (h', res)"
      using assms pp a
      by (cases "post_processing E (st_heap st) (c_samples c) (c_svs c) a d_nsp (self_L_rk_tol (st_self st))")
         (auto simp: nonminimal_def Let_def)
    note P = post_processing_frame[OF ppr]
    have h: "st_heap st' = h'"
      and r: "st_self st' = log_msg (log_msg (st_self st) INFO StartingPostProcessing) WARNING PostProcessingFailed
              \<or> st_self st' = (log_msg (st_self st) INFO StartingPostProcessing)\<lparr>self_itpl_part := Some a\<rparr>"
      using assms pp a ppr P(2) by (auto simp: nonminimal_def Let_def split: option.splits)
    have "self_itpl_part (st_self st') = Some a"
      using r a by (auto simp: itpl_log)
    moreover have "same_config (st_self st) (st_self st')"
      using r by (auto simp: same_config_log same_config_itpl same_config_refl)
    ultimately show ?thesis using P(1) h a by simp
  qed
  then show "same_arrays (st_heap st) (st_heap st')" "same_config (st_self st) (st_self st')"
    "self_itpl_part (st_self st') = self_itpl_part (st_self st)"
    by auto
qed

lemma solve_update_frame:
  assumes su: "solve_update E c st = Inr (out, st')"
  shows "same_arrays (st_heap st) (st_heap st')" "same_config (st_self st) (st_self st')"
    "self_itpl_part (st_self st') = self_itpl_part (st_self st)"
    "\<exists>a coefs. self_itpl_part (st_self st') = Some a
       \<and> st_fit st' = Some (map (\<lambda>(sv, lp). take_idx sv lp) (zip (c_svs c) (part_of (st_heap st') a)),
                            ix_gather (c_samples c) (part_of (st_heap st') a), coefs)"
proof -
  obtain a where a: "self_itpl_part (st_self st) = Some a"
    using su by (cases "self_itpl_part (st_self st)") (auto simp: solve_update_def)
  obtain L where L: "full_nd_loewner (c_samples c) (c_svs c) (part_of (st_heap st) a) = Inr L"
    using su a by (cases "full_nd_loewner (c_samples c) (c_svs c) (part_of (st_heap st) a)")
      (auto simp: solve_update_def)
  obtain S V where sv: "svd E L = (S, V)" by (cases "svd E L") auto
  have S: "S \<noteq> []"
    using su a L sv by (auto simp: solve_update_def Let_def split: if_splits)
  let ?d = "null_dim (self_nsp_tol (st_self st)) S"
  obtain coefs' st1 where nm: "nonminimal E c st (svd_coefs V) ?d = Inr (coefs', st1)"
    using su a L sv S by (cases "nonminimal E c st (svd_coefs V) ?d") (auto simp: solve_update_def Let_def)
  note N = nonminimal_frame[OF nm]
  have a1: "self_itpl_part (st_self st1) = Some a" using N(3) a by simp
  let ?parts = "part_of (st_heap st1) a"
  let ?st2 = "st1\<lparr>st_fit := Some (map (\<lambda>(sv, lp). take_idx sv lp) (zip (c_svs c) ?parts),
                                    ix_gather (c_samples c) ?parts, coefs')\<rparr>"
  have res: "st' = ?st2\<lparr>st_self := log_msg (st_self ?st2) INFO ConvergedNullSpace\<rparr> \<or> st' = ?st2"
    using su unfolding solve_update_def a option.case L sum.case sv prod.case Let_def nm a1
    using S by (auto split: if_splits)
  show "same_arrays (st_heap st) (st_heap st')" using res N(1) by auto
  show "same_config (st_self st) (st_self st')" using res N(2) by (auto simp: same_config_log)
  show "self_itpl_part (st_self st') = self_itpl_part (st_self st)"
    using res a a1 by (auto simp: itpl_log)
  show "\<exists>a coefs. self_itpl_part (st_self st') = Some a
       \<and> st_fit st' = Some (map (\<lambda>(sv, lp). take_idx sv lp) (zip (c_svs c) (part_of (st_heap st') a)),
                            ix_gather (c_samples c) (part_of (st_heap st') a), coefs)"
    using res a1 by (auto simp: itpl_log)
qed

lemma reduce_iter_frame:
  assumes it: "reduce_iter E c st = Inr (out, st')"
  shows "same_arrays (st_heap st) (st_heap st')" "same_config (st_self st) (st_self st')"
    "self_itpl_part (st_self st') = self_itpl_part (st_self st)"
    "fit_consistent c st \<longrightarrow> fit_consistent c st'"
proof -
  obtain masked where m: "masked_errors E c st = Inr masked"
    using it by (cases "masked_errors E c st") (auto simp: reduce_iter_def)
  obtain a where a: "self_itpl_part (st_self st) = Some a"
    using it m by (cases "self_itpl_part (st_self st)") (auto simp: reduce_iter_def)
  let ?err = "Max (set masked)"
  let ?j = "st_j st + 1"
  let ?r1 = "log_msg (st_self st) INFO
               (RelativeErrorAtStep ?j (?err / c_max_samples c) (map length (part_of (st_heap st) a)))"
  note it' = it[unfolded reduce_iter_def m sum.case a option.case Let_def]
  have "same_arrays (st_heap st) (st_heap st') \<and> same_config (st_self st) (st_self st')
    \<and> self_itpl_part (st_self st') = self_itpl_part (st_self st)
    \<and> (fit_consistent c st \<longrightarrow> fit_consistent c st')"
  proof (cases "?err \<le> c_rel_tol c")
    case True
    then have "st' = st\<lparr>st_self := ?r1, st_j := ?j\<rparr>"
      using it' by auto
    then show ?thesis
      by (auto simp: itpl_log same_arrays_refl same_config_log same_config_refl fit_consistent_def
            split: option.splits prod.splits)
  next
    case False
    have cj: "self_conjugate ?r1 = self_conjugate (st_self st)" by (simp add: log_msg_def)
    obtain h1 where g: "greedy_loop (self_conjugate (st_self st)) (c_svs c) (c_max_itpl c) a
                          (greedy_index c masked) [0..<length (c_svs c)] (st_heap st) = Inr h1"
      using it' False unfolding cj
      by (cases "greedy_loop (self_conjugate (st_self st)) (c_svs c) (c_max_itpl c) a
                          (greedy_index c masked) [0..<length (c_svs c)] (st_heap st)") auto
    let ?st1 = "st\<lparr>st_heap := h1, st_self := ?r1, st_j := ?j\<rparr>"
    have su: "solve_update E c ?st1 = Inr (out, st')"
      using it' False g unfolding cj by simp
    note S = solve_update_frame[OF su]
    have "same_arrays (st_heap st) (st_heap st')"
      using greedy_loop_frame[OF g] S(1) by (auto intro: same_arrays_trans)
    moreover have "same_config (st_self st) (st_self st')"
      using S(2) by (auto simp: same_config_def log_msg_def)
    moreover have "self_itpl_part (st_self st') = self_itpl_part (st_self st)"
      using S(3) by (simp add: itpl_log)
    moreover have "fit_consistent c st'"
      using S(4) by (auto simp: fit_consistent_def)
    ultimately show ?thesis by simp
  qed
  then show "same_arrays (st_heap st) (st_heap st')" "same_config (st_self st) (st_self st')"
    "self_itpl_part (st_self st') = self_itpl_part (st_self st)"
    "fit_consistent c st \<longrightarrow> fit_consistent c st'"
    by auto
qed

lemma reduce_loop_frame:
  "reduce_loop fuel E c st = Some (Inr st') \<Longrightarrow>
     same_arrays (st_heap st) (st_heap st') \<and> same_config (st_self st) (st_self st')
     \<and> self_itpl_part (st_self st') = self_itpl_part (st_self st)
     \<and> (fit_consistent c st \<longrightarrow> fit_consistent c st')"
proof (induction fuel arbitrary: st)
  case 0
  then show ?case by simp
next
  case (Suc fuel)
  obtain a where a: "self_itpl_part (st_self st) = Some a"
    using Suc.prems by (cases "self_itpl_part (st_self st)") auto
  show ?case
  proof (cases "has_room (c_max_itpl c) (part_of (st_heap st) a)")
    case False
    then have "st' = st" using Suc.prems a by simp
    then show ?thesis by (simp add: same_arrays_refl same_config_refl)
  next
    case True
    then obtain out st1 where it: "reduce_iter E c st = Inr (out, st1)"
      using Suc.prems a by (cases "reduce_iter E c st") auto
    note F = reduce_iter_frame[OF it]
    show ?thesis
    proof (cases "out = Again")
      case True
      then have "reduce_loop fuel E c st1 = Some (Inr st')"
        using Suc.prems a \<open>has_room (c_max_itpl c) (part_of (st_heap st) a)\<close> it by simp
      then show ?thesis
        using Suc.IH[of st1] F
        by (auto intro: same_arrays_trans same_config_trans)
    next
      case False
      then have "st' = st1"
        using Suc.prems a \<open>has_room (c_max_itpl c) (part_of (st_heap st) a)\<close> it
        by (cases out) auto
      then show ?thesis using F by simp
    qed
  qed
qed

subsection \<open>Example A, evaluated\<close>

lemma ex_A_setup:
  "reduce_setup ex_env ex_heap_A ex_reductor (1 / 10 ^ 7) None None
     = Inr (ex_c_A 3, ex_st_A, \<lparr>shape = [4], data = [\<i>, - \<i>, 2 * \<i>, - (2 * \<i>)]\<rparr>, 1, 1)"
  "reduce_setup ex_env ex_heap_A ex_reductor (1 / 10 ^ 7) None (Some [mx])
     = Inr (ex_c_A mx, ex_st_A, \<lparr>shape = [4], data = [\<i>, - \<i>, 2 * \<i>, - (2 * \<i>)]\<rparr>, 1, 1)"
  by (simp_all add: reduce_setup_def reduce_prepare_def init_partition_def Let_def ex_env_def
        ex_reductor_def ex_heap_A_def ex_c_A_def ex_st_A_def tensor_row_def row_data_def vstack_def complex_eq_iff)

lemma ex_A_masked: "0 < mx \<Longrightarrow> masked_errors ex_env (ex_c_A mx) ex_st_A = Inr [1, 1, 2, 2]"
  by (simp add: masked_errors_def masked_err_mat_def err_mat_def zero_idx_def in_product_def
        all_idx_def bary_value_def tget_def part_of_def Let_def ex_env_def
        ex_c_A_def ex_st_A_def ex_reductor_def norm_mult)

lemma ex_A_argmax: "argmax [1, 1, 2, 2] = 2"
  by (simp add: argmax_def first_index_def)

lemma ex_A_greedy_index: "greedy_index (ex_c_A mx) [1, 1, 2, 2] = [2]"
  by (simp add: greedy_index_def ex_A_argmax all_idx_def ex_c_A_def)

lemma ex_A_greedy:
  "0 < mx \<Longrightarrow>
   greedy_loop True (c_svs (ex_c_A mx)) (c_max_itpl (ex_c_A mx)) 0 [2] [0] (st_heap ex_st_A)
   = Inr (st_heap ex_st_A\<lparr>int_lists := [[2, 3]]\<rparr>)"
  by (simp add: greedy_step_def part_of_def list_append_def where_eq_def Let_def
        ex_c_A_def ex_st_A_def complex_eq_iff)

lemma ex_A_loewner:
  "full_nd_loewner \<lparr>shape = [4], data = [\<i>, - \<i>, 2 * \<i>, - (2 * \<i>)]\<rparr>
     [[\<i>, - \<i>, 2 * \<i>, - (2 * \<i>)]] [[2, 3]] = Inr [[1, 1], [1, 1]]"
  by (simp add: full_nd_loewner_def nd_loewner_def ls_part_def part_ok_def ls_idx_def
        take_idx_def outer_diff_def ix_gather_def ix_ok_def tget_def Let_def complex_eq_iff)

lemma ex_svd_ones:
  "svd ex_env [[1, 1], [1, 1]] = ([2, 0], [[sqrt 2 / 2, sqrt 2 / 2], [sqrt 2 / 2, - (sqrt 2 / 2)]])"
  by (simp add: ex_env_def)

lemma svd_coefs_2x2: "svd_coefs [[a, b], [c, d]] = [cnj c, cnj d]"
  by (simp add: svd_coefs_def transpose.simps)

lemma ex_A_iter: 
  assumes "0 < mx"
  shows "reduce_iter ex_env (ex_c_A mx) ex_st_A = Inr (Break_nsp, ex_st_A1)"
proof -
  have a: "self_itpl_part (st_self ex_st_A) = Some 0" "self_conjugate (st_self ex_st_A) = True"
    "self_post_process (st_self ex_st_A) = True" "self_nsp_tol (st_self ex_st_A) = 1 / 10 ^ 16"
    "st_j ex_st_A = 0"
    by (simp_all add: ex_st_A_def ex_reductor_def)
  have n: "length (c_svs (ex_c_A mx)) = 1" "c_max_samples (ex_c_A mx) = 2"
    "\<not> Max (set [1, 1, 2, 2 :: real]) \<le> c_rel_tol (ex_c_A mx)"
    by (simp_all add: ex_c_A_def)
  have p: "part_of (st_heap ex_st_A) 0 = [[]]"
    by (simp add: part_of_def ex_st_A_def)
  have su: "solve_update ex_env (ex_c_A mx)
              (ex_st_A\<lparr>st_heap := st_heap ex_st_A\<lparr>int_lists := [[2, 3]]\<rparr>,
                       st_self := log_msg (st_self ex_st_A) INFO (RelativeErrorAtStep 1 1 [0]),
                       st_j := 1\<rparr>)
            = Inr (Break_nsp, ex_st_A1)"
    by (simp add: solve_update_def ex_A_loewner ex_svd_ones svd_coefs_2x2 nonminimal_def null_dim_def Let_def
          log_msg_def part_of_def ex_st_A1_def ex_fit_A_def ix_gather_def ix_ok_def tget_def take_idx_def
          ex_st_A_def ex_reductor_def ex_c_A_def)
  show ?thesis
    unfolding reduce_iter_def ex_A_masked[OF assms] sum.case a option.case Let_def
    using n su ex_A_greedy[OF assms]
    by (simp add: ex_A_greedy_index p log_msg_def a del: greedy_loop.simps)
qed

lemma ex_A_loop:
  assumes "0 < mx"
  shows "reduce_loop 1 ex_env (ex_c_A mx) ex_st_A = Some (Inr ex_st_A1)"
proof -
  have hr: "has_room (c_max_itpl (ex_c_A mx)) (part_of (st_heap ex_st_A) 0)"
    using assms by (simp add: has_room_def part_of_def ex_c_A_def ex_st_A_def)
  have a: "self_itpl_part (st_self ex_st_A) = Some 0"
    by (simp add: ex_st_A_def ex_reductor_def)
  show ?thesis
    using hr a ex_A_iter[OF assms] by (simp del: reduce_loop.simps add: reduce_loop.simps(2)[of 0, simplified])
qed

lemma ex_A_finalize:
  "finalize \<lparr>shape = [4], data = [\<i>, - \<i>, 2 * \<i>, - (2 * \<i>)]\<rparr> 1 1 ex_st_A1
     = Inr (ex_rom_A, st_heap ex_st_A1, st_self ex_st_A1)"
  by (simp add: finalize_def ex_st_A1_def ex_st_A_def ex_reductor_def ex_fit_A_def ex_rom_A_def Let_def)

lemma ex_A_reduce:
  "reduce ex_env 1 ex_heap_A ex_reductor (1 / 10 ^ 7) None None
   = Some (Inr (ex_rom_A, st_heap ex_st_A1, st_self ex_st_A1))"
proof -
  have "(0::int) < 3" by simp
  note l = ex_A_loop[OF this]
  show ?thesis
    unfolding reduce_def ex_A_setup sum.case prod.case l option.case ex_A_finalize ..
qed

lemma ex_A_reduce_cap:
  assumes "0 < mx"
  shows "reduce ex_env 1 ex_heap_A ex_reductor (1 / 10 ^ 7) None (Some [mx])
   = Some (Inr (ex_rom_A, st_heap ex_st_A1, st_self ex_st_A1))"
  unfolding reduce_def ex_A_setup sum.case prod.case ex_A_loop[OF assms] option.case ex_A_finalize ..

subsection \<open>The stored data\<close>

lemma init_partition_frame:
  assumes "init_partition h r n itpl_part = Inr (h', r')"
  shows "same_arrays h h' \<or> (arrays h' = arrays h \<and> arr_lists h' = arr_lists h \<and> tensors h' = tensors h)"
    and "arrays h' = arrays h" "arr_lists h' = arr_lists h" "tensors h' = tensors h"
    and "same_config r r'"
    and "self_itpl_part r' = (case itpl_part of None \<Rightarrow> Some (length (ref_lists h)) | Some a \<Rightarrow> Some a)"
    and "itpl_part \<noteq> None \<longrightarrow> h' = h"
  using assms
  by (auto simp: init_partition_def Let_def same_config_def split: option.splits if_splits)

lemma reduce_frame:
  assumes ok: "reductor_ok h r"
    and red: "reduce E fuel h r tol itpl_part max_itpl = Some (Inr (rom, h', r'))"
  shows "same_config r r'"
    and "\<forall>a<length (arr_lists h). arr_lists h' ! a = arr_lists h ! a"
    and "\<forall>b<length (arrays h). arrays h' ! b = arrays h ! b"
    and "\<forall>t<length (tensors h). tensors h' ! t = tensors h ! t"
    and "length (arr_lists h) \<le> length (arr_lists h')" "length (arrays h) \<le> length (arrays h')"
      "length (tensors h) \<le> length (tensors h')"
proof -
  obtain c st0 samples_orig dim_input dim_output where
    stp: "reduce_setup E h r tol itpl_part max_itpl = Inr (c, st0, samples_orig, dim_input, dim_output)"
    using red by (cases "reduce_setup E h r tol itpl_part max_itpl") (auto simp: reduce_def)
  obtain st where loop: "reduce_loop fuel E c st0 = Some (Inr st)"
    and fin: "finalize samples_orig dim_input dim_output st = Inr (rom, h', r')"
    using red unfolding reduce_def stp sum.case prod.case
    by (auto split: option.splits sum.splits)
  have res: "h' = st_heap st" "r' = st_self st"
    using fin by (auto simp: finalize_def Let_def split: option.splits if_splits prod.splits)
  obtain h1 svs_ref samples_ref where prep: "reduce_prepare h r = Inr (h1, svs_ref, samples_ref)"
    and ip: "init_partition h1 r (length (c_svs c)) itpl_part = Inr (st_heap st0, st_self st0)"
    using reduce_setup_cases[OF stp] by blast
  note P = reduce_prepare_frame[OF prep]
  note I = init_partition_frame[OF ip]
  note L = reduce_loop_frame[OF loop]
  have eq: "arrays h' = arrays h1" "arr_lists h' = arr_lists h1" "tensors h' = tensors h1"
    using L I(2-4) res by (auto simp: same_arrays_def)
  show "same_config r r'"
    using I(5) L res by (auto intro: same_config_trans)
  show "\<forall>a<length (arr_lists h). arr_lists h' ! a = arr_lists h ! a"
    "\<forall>b<length (arrays h). arrays h' ! b = arrays h ! b"
    "\<forall>t<length (tensors h). tensors h' ! t = tensors h ! t"
    "length (arr_lists h) \<le> length (arr_lists h')" "length (arrays h) \<le> length (arrays h')"
    "length (tensors h) \<le> length (tensors h')"
    using P(4-9) eq by simp_all
qed

lemma reduce_setup_data:
  assumes ok: "reductor_ok h r"
    and stp: "reduce_setup E h r tol itpl_part max_itpl = Inr (c, st0, samples_aug, dim_input, dim_output)"
  defines "svs \<equiv> sampling_grid h (self_sampling_values r)"
    and "T \<equiv> tensors h ! self_samples r"
  shows "c_svs c = (if self_conjugate r
                    then (svs ! 0 @ map cnj (filter (\<lambda>s. cnj s \<notin> set (svs ! 0)) (svs ! 0))) # tl svs
                    else svs)"
    and "(if self_conjugate r \<and> missing_conj (svs ! 0) \<noteq> []
          then vstack T (map (\<lambda>i. map cnj (row_data T i)) (missing_conj (svs ! 0)))
          else Inr T) = Inr samples_aug"
    and "c_max_samples c = Max (set (map cmod (data samples_aug)))"
    and "c_samples c =
           (if length (shape samples_aug) \<noteq> length (c_svs c)
            then (case projection_vectors E (c_svs c ! 0) (last (butlast (shape samples_aug)))
                         (last (shape samples_aug)) of
                    (w, v) \<Rightarrow> matvec_last (matvec_last samples_aug v) w)
            else samples_aug)"
proof -
  obtain h1 svs_ref samples_ref where prep: "reduce_prepare h r = Inr (h1, svs_ref, samples_ref)"
    and c: "c_svs c = sampling_grid h1 svs_ref" and s: "samples_aug = tensors h1 ! samples_ref"
    and m: "c_max_samples c = Max (set (map cmod (data samples_aug)))"
    and p: "c_samples c =
           (if length (shape samples_aug) \<noteq> length (c_svs c)
            then (case projection_vectors E (c_svs c ! 0) (last (butlast (shape samples_aug)))
                         (last (shape samples_aug)) of
                    (w, v) \<Rightarrow> matvec_last (matvec_last samples_aug v) w)
            else samples_aug)"
    using reduce_setup_cases[OF stp] by blast
  show "c_svs c = (if self_conjugate r
                    then (svs ! 0 @ map cnj (filter (\<lambda>s. cnj s \<notin> set (svs ! 0)) (svs ! 0))) # tl svs
                    else svs)"
    unfolding c svs_def using reduce_prepare_values(1)[OF ok prep] .
  show "(if self_conjugate r \<and> missing_conj (svs ! 0) \<noteq> []
          then vstack T (map (\<lambda>i. map cnj (row_data T i)) (missing_conj (svs ! 0)))
          else Inr T) = Inr samples_aug"
    unfolding s svs_def T_def using reduce_prepare_values(2)[OF ok prep] .
  show "c_max_samples c = Max (set (map cmod (data samples_aug)))" by (rule m)
  show "c_samples c =
           (if length (shape samples_aug) \<noteq> length (c_svs c)
            then (case projection_vectors E (c_svs c ! 0) (last (butlast (shape samples_aug)))
                         (last (shape samples_aug)) of
                    (w, v) \<Rightarrow> matvec_last (matvec_last samples_aug v) w)
            else samples_aug)" by (rule p)
qed

text \<open>
  \<^bold>\<open>C8.\<close> A call of \<open>reduce\<close> that returns does not change the data stored in the reductor:
  \<open>self.samples\<close> and \<open>self.sampling_values\<close> are the same objects with the same contents
  afterwards (the list of arrays, every array in it and the tensor). The call works on
  copies: the list bound to \<open>svs\<close> and the tensor bound to \<open>samples\<close> are allocated by the
  call, and the conjugate augmentation stores into these only. Hence any later call on
  the same instance, whatever its tolerance, initial partition and caps, works on the same
  grid and the same samples as a call before.
\<close>

theorem reduce_keeps_stored_data:
  assumes "reductor_ok h r"
    and "reduce E fuel h r tol itpl_part max_itpl = Some (Inr (rom, h', r'))"
  shows "self_samples r' = self_samples r \<and> self_sampling_values r' = self_sampling_values r
         \<and> tensors h' ! self_samples r' = tensors h ! self_samples r
         \<and> arr_lists h' ! self_sampling_values r' = arr_lists h ! self_sampling_values r
         \<and> sampling_grid h' (self_sampling_values r') = sampling_grid h (self_sampling_values r)
         \<and> (\<exists>h1 svs_ref samples_ref.
               reduce_prepare h r = Inr (h1, svs_ref, samples_ref)
               \<and> svs_ref = length (arr_lists h) \<and> length (tensors h) \<le> samples_ref)
         \<and> reductor_ok h' r'
         \<and> (\<forall>tol1 ip1 mi1 c1 st1 s1 di1 do1 tol2 ip2 mi2 c2 st2 s2 di2 do2.
               reduce_setup E h r tol1 ip1 mi1 = Inr (c1, st1, s1, di1, do1)
               \<and> reduce_setup E h' r' tol2 ip2 mi2 = Inr (c2, st2, s2, di2, do2)
               \<longrightarrow> c_svs c2 = c_svs c1 \<and> c_samples c2 = c_samples c1
                   \<and> c_max_samples c2 = c_max_samples c1 \<and> s2 = s1)"
proof -
  note F = reduce_frame[OF assms]
  have cfg: "self_samples r' = self_samples r" "self_sampling_values r' = self_sampling_values r"
    "self_conjugate r' = self_conjugate r"
    using F(1) by (simp_all add: same_config_def)
  have ok: "self_sampling_values r < length (arr_lists h)"
    "\<forall>b\<in>set (arr_lists h ! self_sampling_values r). b < length (arrays h)"
    "self_samples r < length (tensors h)" "arr_lists h ! self_sampling_values r \<noteq> []"
    using assms(1) by (auto simp: reductor_ok_def list_all_iff)
  have t: "tensors h' ! self_samples r' = tensors h ! self_samples r"
    using F(4) ok(3) cfg by simp
  have al: "arr_lists h' ! self_sampling_values r' = arr_lists h ! self_sampling_values r"
    using F(2) ok(1) cfg by simp
  have sg: "sampling_grid h' (self_sampling_values r') = sampling_grid h (self_sampling_values r)"
    unfolding sampling_grid_def al using F(3) ok(2) by simp
  have al': "arr_lists h' ! self_sampling_values r = arr_lists h ! self_sampling_values r"
    using al cfg by simp
  have ok': "reductor_ok h' r'"
    using ok F(5-7) unfolding reductor_ok_def cfg al' by (auto simp: list_all_iff)
  obtain c0 st0 s0 di0 do0 where
    stp: "reduce_setup E h r tol itpl_part max_itpl = Inr (c0, st0, s0, di0, do0)"
    using assms(2) by (cases "reduce_setup E h r tol itpl_part max_itpl") (auto simp: reduce_def)
  obtain h1 svs_ref samples_ref where prep: "reduce_prepare h r = Inr (h1, svs_ref, samples_ref)"
    using reduce_setup_cases[OF stp] by blast
  have fresh: "\<exists>h1 svs_ref samples_ref.
               reduce_prepare h r = Inr (h1, svs_ref, samples_ref)
               \<and> svs_ref = length (arr_lists h) \<and> length (tensors h) \<le> samples_ref"
    using prep reduce_prepare_frame(3,10)[OF prep] by blast
  have again: "c_svs c2 = c_svs c1 \<and> c_samples c2 = c_samples c1
                   \<and> c_max_samples c2 = c_max_samples c1 \<and> s2 = s1"
    if a: "reduce_setup E h r tol1 ip1 mi1 = Inr (c1, st1, s1, di1, do1)"
      and b: "reduce_setup E h' r' tol2 ip2 mi2 = Inr (c2, st2, s2, di2, do2)"
    for tol1 ip1 mi1 c1 st1 s1 di1 do1 tol2 ip2 mi2 c2 st2 s2 di2 do2
  proof -
    note A = reduce_setup_data[OF assms(1) a]
    have sg': "sampling_grid h' (self_sampling_values r) = sampling_grid h (self_sampling_values r)"
      and t': "tensors h' ! self_samples r = tensors h ! self_samples r"
      using sg t cfg by simp_all
    note B = reduce_setup_data[OF ok' b, unfolded cfg sg' t']
    have 1: "c_svs c2 = c_svs c1" using A(1) B(1) by simp
    have 2: "s2 = s1" using A(2) B(2) by simp
    have 3: "c_max_samples c2 = c_max_samples c1" using A(3) B(3) 2 by simp
    have 4: "c_samples c2 = c_samples c1" unfolding A(4) B(4) 1 2 ..
    show ?thesis using 1 2 3 4 by simp
  qed
  show ?thesis
    using cfg(1,2) t al sg fresh ok' again by blast
qed

theorem reduce_keeps_stored_data_witness:
  "reductor_ok ex_heap_A ex_reductor
   \<and> tensors (st_heap ex_st_A1) ! 0 = tensors ex_heap_A ! 0
   \<and> sampling_grid (st_heap ex_st_A1) 0 = [[\<i>, - \<i>, 2 * \<i>, - (2 * \<i>)]]"
proof -
  have ok: "reductor_ok ex_heap_A ex_reductor"
    by (simp add: reductor_ok_def ex_heap_A_def ex_reductor_def)
  have r: "self_samples ex_reductor = 0" "self_sampling_values ex_reductor = 0"
    "self_samples (st_self ex_st_A1) = 0" "self_sampling_values (st_self ex_st_A1) = 0"
    by (simp_all add: ex_reductor_def ex_st_A1_def ex_st_A_def)
  have g: "sampling_grid ex_heap_A 0 = [[\<i>, - \<i>, 2 * \<i>, - (2 * \<i>)]]"
    by (simp add: sampling_grid_def ex_heap_A_def)
  show ?thesis
    using reduce_keeps_stored_data[OF ok ex_A_reduce] ok by (simp add: r g)
qed

subsection \<open>Examples B and C, evaluated\<close>

lemma ex_B_setup:
  "reduce_setup ex_env ex_heap_B ex_reductor_B (1 / 10 ^ 7) (Some 0) None
     = Inr (ex_c_B, ex_st_B, \<lparr>shape = [4, 3], data = [0, 12, 0, 0, 0, 0, 0, 0, 0, 0, 0, 0]\<rparr>, 1, 1)"
  by (simp add: reduce_setup_def reduce_prepare_def init_partition_def Let_def ex_env_def
        ex_reductor_def ex_reductor_B_def ex_heap_B_def ex_c_B_def ex_st_B_def tensor_row_def row_data_def
        vstack_def complex_eq_iff)

lemma ex_B_masked:
  "masked_errors ex_env ex_c_B ex_st_B = Inr [0, 11, 1, 1, 1, 1, 1, 1, 1, 1, 1, 1]"
  by (simp add: masked_errors_def masked_err_mat_def err_mat_def zero_idx_def in_product_def
        all_idx_def bary_value_def tget_def part_of_def Let_def ex_env_def
        ex_c_B_def ex_st_B_def ex_reductor_def ex_reductor_B_def)

lemma ex_B_greedy_index: "greedy_index ex_c_B [0, 11, 1, 1, 1, 1, 1, 1, 1, 1, 1, 1] = [0, 1]"
  by (simp add: greedy_index_def argmax_def first_index_def all_idx_def ex_c_B_def)

lemma ex_B_greedy:
  "greedy_loop True (c_svs ex_c_B) (c_max_itpl ex_c_B) 0 [0, 1] [0, 1] (st_heap ex_st_B)
   = Inr (st_heap ex_st_B\<lparr>int_lists := [[0], [0, 1]]\<rparr>)"
  by (simp add: greedy_step_def part_of_def list_append_def where_eq_def Let_def
        ex_c_B_def ex_st_B_def)

lemma ex_C_setup:
  "reduce_setup ex_env ex_heap_C ex_reductor_C tol None None
     = Inr (ex_c_C tol, ex_st_C [] None [] 0, \<lparr>shape = [3], data = [1, 1, 1]\<rparr>, 1, 1)"
  by (simp add: reduce_setup_def reduce_prepare_def init_partition_def Let_def ex_env_def
        ex_reductor_def ex_reductor_C_def ex_heap_C_def ex_c_C_def ex_st_C_def tensor_row_def row_data_def
        vstack_def)

lemma ex_C_masked0: "masked_errors ex_env (ex_c_C tol) (ex_st_C [] None lg j) = Inr [0, 0, 0]"
  by (simp add: masked_errors_def masked_err_mat_def err_mat_def zero_idx_def in_product_def
        all_idx_def bary_value_def tget_def part_of_def Let_def ex_env_def
        ex_c_C_def ex_st_C_def ex_reductor_def ex_reductor_C_def)

lemma ex_C_bary:
  "make_bary_func exact_arith [[1]] (SISO [1]) [1] default_singularity_tol [1] = Inr [[1]]"
  "make_bary_func exact_arith [[1]] (SISO [1]) [1] default_singularity_tol [2] = Inr [[1]]"
  "make_bary_func exact_arith [[1]] (SISO [1]) [1] default_singularity_tol [3] = Inr [[1]]"
  by (simp_all add: make_bary_func_def bary_pd_def pole_term_def kronv_def dot_def eye1_def argmin_def
        first_index_def default_singularity_tol_def exact_arith_def Let_def)

lemma ex_C_masked1:
  "masked_errors ex_env (ex_c_C tol) (ex_st_C [0] (Some ([[1]], [1], [1])) lg j) = Inr [0, 0, 0]"
  by (simp add: masked_errors_def masked_err_mat_def err_mat_def zero_idx_def in_product_def
        all_idx_def bary_value_def tget_def part_of_def Let_def ex_env_def ex_C_bary
        ex_c_C_def ex_st_C_def ex_reductor_def ex_reductor_C_def)

lemma ex_C_greedy_index: "greedy_index (ex_c_C tol) [0, 0, 0] = [0]"
  by (simp add: greedy_index_def argmax_def first_index_def all_idx_def ex_c_C_def)

lemma ex_C_loewner:
  "full_nd_loewner \<lparr>shape = [3], data = [1, 1, 1]\<rparr> [[1, 2, 3]] [[0]] = Inr [[0], [0]]"
  by (simp add: full_nd_loewner_def nd_loewner_def ls_part_def part_ok_def ls_idx_def
        take_idx_def outer_diff_def ix_gather_def ix_ok_def tget_def Let_def)

lemma ex_svd_zero: "svd ex_env [[0], [0]] = ([0], [[1]])"
  by (simp add: ex_env_def)

lemma svd_coefs_1x1: "svd_coefs [[a]] = [cnj a]"
  by (simp add: svd_coefs_def transpose.simps)

lemma ex_C_solve:
  "solve_update ex_env (ex_c_C tol) (ex_st_C [0] fit lg j)
   = Inr (Again, ex_st_C [0] (Some ([[1]], [1], [1])) lg j)"
  by (simp add: solve_update_def ex_C_loewner ex_svd_zero svd_coefs_1x1 nonminimal_def null_dim_def
        Let_def part_of_def ix_gather_def ix_ok_def tget_def take_idx_def
        ex_st_C_def ex_reductor_def ex_reductor_C_def ex_c_C_def)

lemma ex_C_iter0:
  assumes "tol < 0"
  shows "reduce_iter ex_env (ex_c_C tol) (ex_st_C [] None [] 0)
         = Inr (Again, ex_st_C [0] (Some ([[1]], [1], [1])) [(INFO, RelativeErrorAtStep 1 0 [0])] 1)"
proof -
  have g: "greedy_loop True (c_svs (ex_c_C tol)) (c_max_itpl (ex_c_C tol)) 0 [0] [0]
             (st_heap (ex_st_C [] None [] 0)) = Inr (st_heap (ex_st_C [0] None [] 0))"
    by (simp add: greedy_step_def part_of_def list_append_def Let_def ex_c_C_def ex_st_C_def)
  have s: "(ex_st_C [] None [] 0)\<lparr>st_heap := st_heap (ex_st_C [0] None [] 0),
              st_self := log_msg (st_self (ex_st_C [] None [] 0)) INFO (RelativeErrorAtStep 1 0 [0]),
              st_j := 1\<rparr> = ex_st_C [0] None [(INFO, RelativeErrorAtStep 1 0 [0])] 1"
    by (simp add: ex_st_C_def log_msg_def)
  have a: "self_itpl_part (st_self (ex_st_C [] None [] 0)) = Some 0"
    "self_conjugate (st_self (ex_st_C [] None [] 0)) = True" "st_j (ex_st_C [] None [] 0) = 0"
    "part_of (st_heap (ex_st_C [] None [] 0)) 0 = [[]]"
    "length (c_svs (ex_c_C tol)) = 1" "c_max_samples (ex_c_C tol) = 1" "c_rel_tol (ex_c_C tol) = tol"
    by (simp_all add: ex_st_C_def ex_reductor_C_def ex_reductor_def part_of_def ex_c_C_def)
  show ?thesis
    unfolding reduce_iter_def ex_C_masked0 sum.case a option.case Let_def
    using assms g s
    by (simp add: ex_C_greedy_index a ex_C_solve log_msg_def del: greedy_loop.simps)
qed

lemma ex_C_iter1:
  assumes "tol < 0"
  shows "reduce_iter ex_env (ex_c_C tol) (ex_st_C [0] (Some ([[1]], [1], [1])) lg j)
         = Inr (Again, ex_st_C [0] (Some ([[1]], [1], [1]))
                         (lg @ [(INFO, RelativeErrorAtStep (j + 1) 0 [1])]) (j + 1))"
proof -
  let ?st = "ex_st_C [0] (Some ([[1]], [1], [1])) lg j"
  have g: "greedy_loop True (c_svs (ex_c_C tol)) (c_max_itpl (ex_c_C tol)) 0 [0] [0]
             (st_heap ?st) = Inr (st_heap ?st)"
    by (simp add: greedy_step_def part_of_def list_append_def Let_def ex_c_C_def ex_st_C_def)
  have s: "?st\<lparr>st_heap := st_heap ?st,
              st_self := log_msg (st_self ?st) INFO (RelativeErrorAtStep (j + 1) 0 [1]),
              st_j := j + 1\<rparr>
           = ex_st_C [0] (Some ([[1]], [1], [1])) (lg @ [(INFO, RelativeErrorAtStep (j + 1) 0 [1])]) (j + 1)"
    by (simp add: ex_st_C_def log_msg_def)
  have a: "self_itpl_part (st_self ?st) = Some 0"
    "self_conjugate (st_self ?st) = True" "st_j ?st = j"
    "part_of (st_heap ?st) 0 = [[0]]"
    "length (c_svs (ex_c_C tol)) = 1" "c_max_samples (ex_c_C tol) = 1" "c_rel_tol (ex_c_C tol) = tol"
    by (simp_all add: ex_st_C_def ex_reductor_C_def ex_reductor_def part_of_def ex_c_C_def)
  show ?thesis
    unfolding reduce_iter_def ex_C_masked1 sum.case a option.case Let_def
    using assms g s
    by (simp add: ex_C_greedy_index a ex_C_solve log_msg_def del: greedy_loop.simps)
qed

lemma ex_C_loop1:
  assumes "tol < 0"
  shows "reduce_loop fuel ex_env (ex_c_C tol) (ex_st_C [0] (Some ([[1]], [1], [1])) lg j) = None"
proof (induction fuel arbitrary: lg j)
  case 0
  show ?case by simp
next
  case (Suc fuel)
  have hr: "has_room (c_max_itpl (ex_c_C tol)) (part_of (st_heap (ex_st_C [0] (Some ([[1]], [1], [1])) lg j)) 0)"
    by (simp add: has_room_def part_of_def ex_c_C_def ex_st_C_def)
  have a: "self_itpl_part (st_self (ex_st_C [0] (Some ([[1]], [1], [1])) lg j)) = Some 0"
    by (simp add: ex_st_C_def)
  show ?case
    unfolding reduce_loop.simps a option.case using hr
    by (simp add: ex_C_iter1[OF assms] Suc.IH)
qed

lemma ex_C_loop0:
  assumes "tol < 0"
  shows "reduce_loop fuel ex_env (ex_c_C tol) (ex_st_C [] None [] 0) = None"
proof (cases fuel)
  case 0
  then show ?thesis by simp
next
  case (Suc n)
  have hr: "has_room (c_max_itpl (ex_c_C tol)) (part_of (st_heap (ex_st_C [] None [] 0)) 0)"
    by (simp add: has_room_def part_of_def ex_c_C_def ex_st_C_def)
  have a: "self_itpl_part (st_self (ex_st_C [] None [] 0)) = Some 0"
    by (simp add: ex_st_C_def)
  show ?thesis
    unfolding Suc reduce_loop.simps a option.case using hr
    by (simp add: ex_C_iter0[OF assms] ex_C_loop1[OF assms])
qed

lemma ex_C_diverges:
  assumes "tol < 0"
  shows "reduce ex_env fuel ex_heap_C ex_reductor_C tol None None = None"
  unfolding reduce_def ex_C_setup sum.case prod.case ex_C_loop0[OF assms] by simp

subsection \<open>The outcome of an iteration\<close>

lemma solve_update_outcome:
  assumes "solve_update E c st = Inr (out, st')"
  shows "\<exists>a L S V. self_itpl_part (st_self st) = Some a
           \<and> full_nd_loewner (c_samples c) (c_svs c) (part_of (st_heap st) a) = Inr L
           \<and> svd E L = (S, V) \<and> S \<noteq> []
           \<and> (out = Break_nsp \<longleftrightarrow>
                 self_post_process (st_self st) \<and> 1 \<le> null_dim (self_nsp_tol (st_self st)) S)
           \<and> (out = Again \<longleftrightarrow>
                 \<not> (self_post_process (st_self st) \<and> 1 \<le> null_dim (self_nsp_tol (st_self st)) S))"
proof -
  obtain a where a: "self_itpl_part (st_self st) = Some a"
    using assms by (cases "self_itpl_part (st_self st)") (auto simp: solve_update_def)
  obtain L where L: "full_nd_loewner (c_samples c) (c_svs c) (part_of (st_heap st) a) = Inr L"
    using assms a by (cases "full_nd_loewner (c_samples c) (c_svs c) (part_of (st_heap st) a)")
      (auto simp: solve_update_def)
  obtain S V where sv: "svd E L = (S, V)" by (cases "svd E L") auto
  have S: "S \<noteq> []"
    using assms a L sv by (auto simp: solve_update_def Let_def split: if_splits)
  let ?d = "null_dim (self_nsp_tol (st_self st)) S"
  obtain coefs' st1 where nm: "nonminimal E c st (svd_coefs V) ?d = Inr (coefs', st1)"
    using assms a L sv S by (cases "nonminimal E c st (svd_coefs V) ?d") (auto simp: solve_update_def Let_def)
  note N = nonminimal_frame[OF nm]
  have a1: "self_itpl_part (st_self st1) = Some a" using N(3) a by simp
  have pp: "self_post_process (st_self st1) = self_post_process (st_self st)"
    using N(2) by (simp add: same_config_def)
  have "(out = Break_nsp \<longleftrightarrow> self_post_process (st_self st) \<and> 1 \<le> ?d)
        \<and> (out = Again \<longleftrightarrow> \<not> (self_post_process (st_self st) \<and> 1 \<le> ?d))"
    using assms unfolding solve_update_def a option.case L sum.case sv prod.case Let_def nm a1
    using S pp by (auto split: if_splits)
  then show ?thesis using a L sv S by blast
qed

lemma reduce_iter_outcome:
  assumes m: "masked_errors E c st = Inr masked"
  shows "(\<exists>st'. reduce_iter E c st = Inr (Break_tol, st')) \<longleftrightarrow> Max (set masked) \<le> c_rel_tol c"
    and "\<forall>out st'. reduce_iter E c st = Inr (out, st') \<and> out \<noteq> Break_tol \<longrightarrow>
           \<not> Max (set masked) \<le> c_rel_tol c
           \<and> (\<exists>a h1 L S V. self_itpl_part (st_self st) = Some a
                 \<and> greedy_loop (self_conjugate (st_self st)) (c_svs c) (c_max_itpl c) a
                      (greedy_index c masked) [0..<length (c_svs c)] (st_heap st) = Inr h1
                 \<and> full_nd_loewner (c_samples c) (c_svs c) (part_of h1 a) = Inr L
                 \<and> svd E L = (S, V) \<and> S \<noteq> []
                 \<and> (out = Break_nsp \<longleftrightarrow>
                       self_post_process (st_self st) \<and> 1 \<le> null_dim (self_nsp_tol (st_self st)) S)
                 \<and> (out = Again \<longleftrightarrow>
                       \<not> (self_post_process (st_self st) \<and> 1 \<le> null_dim (self_nsp_tol (st_self st)) S)))"
proof -
  obtain a where a: "self_itpl_part (st_self st) = Some a"
    using m by (cases "self_itpl_part (st_self st)") (auto simp: masked_errors_def)
  let ?err = "Max (set masked)"
  define j where "j = st_j st + 1"
  define r1 where "r1 = log_msg (st_self st) INFO
               (RelativeErrorAtStep j (?err / c_max_samples c) (map length (part_of (st_heap st) a)))"
  have r1: "self_conjugate r1 = self_conjugate (st_self st)"
    "self_post_process r1 = self_post_process (st_self st)"
    "self_nsp_tol r1 = self_nsp_tol (st_self st)" "self_itpl_part r1 = Some a"
    using a by (simp_all add: r1_def log_msg_def)
  have def: "reduce_iter E c st =
     (if ?err \<le> c_rel_tol c then Inr (Break_tol, st\<lparr>st_self := r1, st_j := j\<rparr>)
      else (case greedy_loop (self_conjugate r1) (c_svs c) (c_max_itpl c) a
                  (greedy_index c masked) [0..<length (c_svs c)] (st_heap st) of
              Inl e \<Rightarrow> Inl e
            | Inr h1 \<Rightarrow> solve_update E c (st\<lparr>st_heap := h1, st_self := r1, st_j := j\<rparr>)))"
    unfolding reduce_iter_def m sum.case a option.case Let_def r1_def j_def ..
  have else_branch: "\<exists>h1 L S V.
           greedy_loop (self_conjugate (st_self st)) (c_svs c) (c_max_itpl c) a
                      (greedy_index c masked) [0..<length (c_svs c)] (st_heap st) = Inr h1
           \<and> full_nd_loewner (c_samples c) (c_svs c) (part_of h1 a) = Inr L
           \<and> svd E L = (S, V) \<and> S \<noteq> []
           \<and> (out = Break_nsp \<longleftrightarrow>
                 self_post_process (st_self st) \<and> 1 \<le> null_dim (self_nsp_tol (st_self st)) S)
           \<and> (out = Again \<longleftrightarrow>
                 \<not> (self_post_process (st_self st) \<and> 1 \<le> null_dim (self_nsp_tol (st_self st)) S))"
    if "\<not> ?err \<le> c_rel_tol c" "reduce_iter E c st = Inr (out, st')" for out st'
  proof (cases "greedy_loop (self_conjugate r1) (c_svs c) (c_max_itpl c) a
                  (greedy_index c masked) [0..<length (c_svs c)] (st_heap st)")
    case (Inl e)
    then show ?thesis using that unfolding def by simp
  next
    case (Inr h1)
    then have "solve_update E c (st\<lparr>st_heap := h1, st_self := r1, st_j := j\<rparr>) = Inr (out, st')"
      using that unfolding def by simp
    from solve_update_outcome[OF this] show ?thesis
      using Inr r1 by auto
  qed
  show "(\<exists>st'. reduce_iter E c st = Inr (Break_tol, st')) \<longleftrightarrow> ?err \<le> c_rel_tol c"
  proof
    assume "\<exists>st'. reduce_iter E c st = Inr (Break_tol, st')"
    then obtain st' where it: "reduce_iter E c st = Inr (Break_tol, st')" by blast
    show "?err \<le> c_rel_tol c"
    proof (rule ccontr)
      assume n: "\<not> ?err \<le> c_rel_tol c"
      from else_branch[OF n it] show False by auto
    qed
  next
    assume "?err \<le> c_rel_tol c"
    then show "\<exists>st'. reduce_iter E c st = Inr (Break_tol, st')" unfolding def by simp
  qed
  show "\<forall>out st'. reduce_iter E c st = Inr (out, st') \<and> out \<noteq> Break_tol \<longrightarrow>
           \<not> Max (set masked) \<le> c_rel_tol c
           \<and> (\<exists>a h1 L S V. self_itpl_part (st_self st) = Some a
                 \<and> greedy_loop (self_conjugate (st_self st)) (c_svs c) (c_max_itpl c) a
                      (greedy_index c masked) [0..<length (c_svs c)] (st_heap st) = Inr h1
                 \<and> full_nd_loewner (c_samples c) (c_svs c) (part_of h1 a) = Inr L
                 \<and> svd E L = (S, V) \<and> S \<noteq> []
                 \<and> (out = Break_nsp \<longleftrightarrow>
                       self_post_process (st_self st) \<and> 1 \<le> null_dim (self_nsp_tol (st_self st)) S)
                 \<and> (out = Again \<longleftrightarrow>
                       \<not> (self_post_process (st_self st) \<and> 1 \<le> null_dim (self_nsp_tol (st_self st)) S)))"
  proof (intro allI impI, elim conjE)
    fix out st' assume it: "reduce_iter E c st = Inr (out, st')" and nb: "out \<noteq> Break_tol"
    have n: "\<not> ?err \<le> c_rel_tol c" using it nb unfolding def by (auto split: if_splits)
    from else_branch[OF n it] a
    show "\<not> Max (set masked) \<le> c_rel_tol c
           \<and> (\<exists>a h1 L S V. self_itpl_part (st_self st) = Some a
                 \<and> greedy_loop (self_conjugate (st_self st)) (c_svs c) (c_max_itpl c) a
                      (greedy_index c masked) [0..<length (c_svs c)] (st_heap st) = Inr h1
                 \<and> full_nd_loewner (c_samples c) (c_svs c) (part_of h1 a) = Inr L
                 \<and> svd E L = (S, V) \<and> S \<noteq> []
                 \<and> (out = Break_nsp \<longleftrightarrow>
                       self_post_process (st_self st) \<and> 1 \<le> null_dim (self_nsp_tol (st_self st)) S)
                 \<and> (out = Again \<longleftrightarrow>
                       \<not> (self_post_process (st_self st) \<and> 1 \<le> null_dim (self_nsp_tol (st_self st)) S)))"
      using n by blast
  qed
qed
text \<open>
  \<^bold>\<open>C1\<close> (as amended). The threshold is \<open>tol\<close> times the largest absolute value of the
  (conjugate-augmented, unprojected) samples, computed once before the loop. In every
  iteration whose masked error matrix is \<open>masked\<close>, the stopping criterion of line 181 ends
  the loop if and only if the maximum of \<open>masked\<close> is at most this threshold. An iteration
  whose maximum exceeds the threshold and that does not raise ends the loop after its update
  (line 221) if and only if post-processing is enabled and the null space of the Loewner
  matrix is non-trivial, that is, \<open>d_nsp \<ge> 1\<close> for the singular values \<open>S\<close> of the full Loewner
  matrix of the partition after the greedy selection; otherwise the loop goes on.
\<close>

theorem stopping_criterion:
  assumes "reduce_setup E h r tol itpl_part max_itpl = Inr (c, st0, samples_aug, dim_input, dim_output)"
    and "masked_errors E c st = Inr masked"
  shows "c_rel_tol c = tol * Max (set (map cmod (data samples_aug)))
         \<and> ((\<exists>st'. reduce_iter E c st = Inr (Break_tol, st'))
              \<longleftrightarrow> Max (set masked) \<le> tol * Max (set (map cmod (data samples_aug))))
         \<and> (\<forall>out st'. reduce_iter E c st = Inr (out, st') \<and> out \<noteq> Break_tol \<longrightarrow>
               \<not> Max (set masked) \<le> tol * Max (set (map cmod (data samples_aug)))
               \<and> (\<exists>a h1 L S V. self_itpl_part (st_self st) = Some a
                     \<and> greedy_loop (self_conjugate (st_self st)) (c_svs c) (c_max_itpl c) a
                          (greedy_index c masked) [0..<length (c_svs c)] (st_heap st) = Inr h1
                     \<and> full_nd_loewner (c_samples c) (c_svs c) (part_of h1 a) = Inr L
                     \<and> svd E L = (S, V) \<and> S \<noteq> []
                     \<and> (out = Break_nsp \<longleftrightarrow>
                           self_post_process (st_self st)
                           \<and> 1 \<le> null_dim (self_nsp_tol (st_self st)) S)
                     \<and> (out = Again \<longleftrightarrow>
                           \<not> (self_post_process (st_self st)
                              \<and> 1 \<le> null_dim (self_nsp_tol (st_self st)) S))))"
proof -
  have rt: "c_rel_tol c = tol * Max (set (map cmod (data samples_aug)))"
    using reduce_setup_cases[OF assms(1)] by auto
  show ?thesis
    using reduce_iter_outcome[OF assms(2)] unfolding rt by simp
qed

theorem stopping_criterion_witness:
  "c_rel_tol (ex_c_C (1 / 10 ^ 7)) = 1 / 10 ^ 7 * Max (set (map cmod [1, 1, 1]))
   \<and> (\<exists>st'. reduce_iter ex_env (ex_c_C (1 / 10 ^ 7)) (ex_st_C [] None [] 0) = Inr (Break_tol, st'))"
proof -
  have s: "reduce_setup ex_env ex_heap_C ex_reductor_C (1 / 10 ^ 7) None None
     = Inr (ex_c_C (1 / 10 ^ 7), ex_st_C [] None [] 0, \<lparr>shape = [3], data = [1, 1, 1]\<rparr>, 1, 1)"
    by (rule ex_C_setup)
  have m: "masked_errors ex_env (ex_c_C (1 / 10 ^ 7)) (ex_st_C [] None [] 0) = Inr [0, 0, 0]"
    by (rule ex_C_masked0)
  show ?thesis
    using stopping_criterion[OF s m] by simp
qed

text \<open>
  The claim as stated fails on Example A with the default arguments: in the first
  iteration the maximal masked error is \<open>2\<close>, well above the threshold \<open>2 \<cdot> 10\<^sup>-\<^sup>7\<close>, and the
  iteration ends the loop all the same, because the Loewner matrix has a non-trivial null
  space.
\<close>

theorem stopping_criterion_counterexample:
  "reduce_setup ex_env ex_heap_A ex_reductor (1 / 10 ^ 7) None None
     = Inr (ex_c_A 3, ex_st_A, \<lparr>shape = [4], data = [\<i>, - \<i>, 2 * \<i>, - (2 * \<i>)]\<rparr>, 1, 1)
   \<and> masked_errors ex_env (ex_c_A 3) ex_st_A = Inr [1, 1, 2, 2]
   \<and> \<not> Max (set [1, 1, 2, 2]) \<le> 1 / 10 ^ 7 * Max (set (map cmod [\<i>, - \<i>, 2 * \<i>, - (2 * \<i>)]))
   \<and> reduce_iter ex_env (ex_c_A 3) ex_st_A = Inr (Break_nsp, ex_st_A1)
   \<and> reduce_loop 1 ex_env (ex_c_A 3) ex_st_A = Some (Inr ex_st_A1)"
proof -
  have "(0::int) < 3" by simp
  note m = ex_A_masked[OF this] and i = ex_A_iter[OF this] and l = ex_A_loop[OF this]
  have "\<not> Max (set [1, 1, 2, 2]) \<le> 1 / 10 ^ 7 * Max (set (map cmod [\<i>, - \<i>, 2 * \<i>, - (2 * \<i>)]))"
    by (simp add: norm_mult)
  then show ?thesis
    using ex_A_setup(1) m i l by simp
qed

text \<open>
  \<^bold>\<open>C5\<close> (as amended). In every iteration that does not stop at the tolerance, the index
  tuple of the maximal masked error (first occurrence) is selected, and the list of every
  variable \<open>i\<close> becomes \<open>greedy_list_spec \<dots> i\<close> of its old value: component \<open>i\<close> of the tuple
  is appended if the list has fewer than \<open>max_itpl[i]\<close> entries \<^emph>\<open>and does not contain it
  yet\<close>; if this happened for variable 0, \<open>conjugate = True\<close> and the selected location has a
  nonzero imaginary part, the first index of the conjugate location is appended as well.
  Otherwise the list is unchanged.
\<close>

theorem greedy_selection:
  assumes "self_itpl_part (st_self st) = Some a"
    and "part_wf (st_heap st) a (length (c_svs c))"
    and "reduce_iter E c st = Inr (out, st')"
    and "out \<noteq> Break_tol"
  shows "\<exists>masked h1.
           masked_errors E c st = Inr masked \<and> \<not> Max (set masked) \<le> c_rel_tol c
           \<and> argmax masked < length masked \<and> masked ! argmax masked = Max (set masked)
           \<and> (\<forall>k<argmax masked. masked ! k < Max (set masked))
           \<and> greedy_index c masked = all_idx (map length (c_svs c)) ! argmax masked
           \<and> greedy_loop (self_conjugate (st_self st)) (c_svs c) (c_max_itpl c) a
                (greedy_index c masked) [0..<length (c_svs c)] (st_heap st) = Inr h1
           \<and> (\<forall>i<length (c_svs c).
                 part_of h1 a ! i
                 = greedy_list_spec (self_conjugate (st_self st)) (c_svs c) (c_max_itpl c)
                     (greedy_index c masked) i (part_of (st_heap st) a ! i))
           \<and> (out = Again \<longrightarrow> st_heap st' = h1)"
proof -
  obtain masked h1 where m: "masked_errors E c st = Inr masked" and ne: "masked \<noteq> []"
    and err: "\<not> Max (set masked) \<le> c_rel_tol c"
    and g: "greedy_loop (self_conjugate (st_self st)) (c_svs c) (c_max_itpl c) a
              (greedy_index c masked) [0..<length (c_svs c)] (st_heap st) = Inr h1"
    and ag: "out = Again \<longrightarrow> st_heap st' = h1"
    using reduce_iter_props(1)[OF assms(1-3)] assms(4) by auto
  note A = argmax_props[OF ne]
  have "\<forall>i<length (c_svs c).
                 part_of h1 a ! i
                 = greedy_list_spec (self_conjugate (st_self st)) (c_svs c) (c_max_itpl c)
                     (greedy_index c masked) i (part_of (st_heap st) a ! i)"
    using greedy_loop_part[OF assms(2) _ _ g] by simp
  then show ?thesis
    using m err A g ag by (auto simp: greedy_index_def)
qed

theorem greedy_selection_witness:
  "\<exists>h1. greedy_loop True (c_svs (ex_c_A 3)) (c_max_itpl (ex_c_A 3)) 0 [2] [0] (st_heap ex_st_A) = Inr h1
        \<and> part_of h1 0 ! 0 = [2, 3]"
proof -
  have "(0::int) < 3" by simp
  note m = ex_A_masked[OF this] and i = ex_A_iter[OF this]
  have a: "self_itpl_part (st_self ex_st_A) = Some 0" "self_conjugate (st_self ex_st_A) = True"
    by (simp_all add: ex_st_A_def ex_reductor_def)
  have wf: "part_wf (st_heap ex_st_A) 0 (length (c_svs (ex_c_A 3)))"
    by (simp add: part_wf_def ex_st_A_def ex_c_A_def)
  have n: "length (c_svs (ex_c_A 3)) = 1" "part_of (st_heap ex_st_A) 0 ! 0 = []"
    by (simp_all add: ex_c_A_def ex_st_A_def part_of_def)
  have s: "greedy_list_spec True (c_svs (ex_c_A 3)) (c_max_itpl (ex_c_A 3)) [2] 0 [] = [2, 3]"
    by (simp add: greedy_list_spec_def where_eq_def ex_c_A_def complex_eq_iff)
  obtain masked h1 where m': "masked_errors ex_env (ex_c_A 3) ex_st_A = Inr masked"
    and g: "greedy_loop (self_conjugate (st_self ex_st_A)) (c_svs (ex_c_A 3)) (c_max_itpl (ex_c_A 3)) 0
              (greedy_index (ex_c_A 3) masked) [0..<length (c_svs (ex_c_A 3))] (st_heap ex_st_A) = Inr h1"
    and p: "\<forall>i<length (c_svs (ex_c_A 3)). part_of h1 0 ! i
              = greedy_list_spec (self_conjugate (st_self ex_st_A)) (c_svs (ex_c_A 3)) (c_max_itpl (ex_c_A 3))
                  (greedy_index (ex_c_A 3) masked) i (part_of (st_heap ex_st_A) 0 ! i)"
    using greedy_selection[OF a(1) wf i] by blast
  have masked: "masked = [1, 1, 2, 2]" using m m' by simp
  have "greedy_loop True (c_svs (ex_c_A 3)) (c_max_itpl (ex_c_A 3)) 0 [2] [0] (st_heap ex_st_A) = Inr h1"
    using g unfolding masked ex_A_greedy_index a(2) n by (simp del: greedy_loop.simps)
  moreover have "part_of h1 0 ! 0 = [2, 3]"
    using p unfolding masked ex_A_greedy_index a(2) n by (simp add: s n)
  ultimately show ?thesis by blast
qed

text \<open>
  The claim as stated fails on Example B: variable 0 has one of at most three points, the
  selected tuple is \<open>(0, 1)\<close>, its variable-0 location \<open>\<i>\<close> is not real and \<open>conjugate\<close> is set,
  but the list of variable 0 stays \<open>[0]\<close>: neither the component \<open>0\<close>, which it holds already,
  nor the index \<open>1\<close> of the conjugate location is appended.
\<close>

theorem greedy_selection_counterexample:
  "reduce_setup ex_env ex_heap_B ex_reductor_B (1 / 10 ^ 7) (Some 0) None
     = Inr (ex_c_B, ex_st_B, \<lparr>shape = [4, 3], data = [0, 12, 0, 0, 0, 0, 0, 0, 0, 0, 0, 0]\<rparr>, 1, 1)
   \<and> masked_errors ex_env ex_c_B ex_st_B = Inr [0, 11, 1, 1, 1, 1, 1, 1, 1, 1, 1, 1]
   \<and> \<not> Max (set [0, 11, 1, 1, 1, 1, 1, 1, 1, 1, 1, 1]) \<le> c_rel_tol ex_c_B
   \<and> greedy_index ex_c_B [0, 11, 1, 1, 1, 1, 1, 1, 1, 1, 1, 1] = [0, 1]
   \<and> part_of (st_heap ex_st_B) 0 = [[0], [0]]
   \<and> c_max_itpl ex_c_B = [3, 2]
   \<and> self_conjugate (st_self ex_st_B)
   \<and> Im (c_svs ex_c_B ! 0 ! 0) \<noteq> 0
   \<and> c_svs ex_c_B ! 0 ! 1 = cnj (c_svs ex_c_B ! 0 ! 0)
   \<and> map_sum id (\<lambda>h1. part_of h1 0)
        (greedy_loop True (c_svs ex_c_B) (c_max_itpl ex_c_B) 0 [0, 1] [0, 1] (st_heap ex_st_B))
      = Inr [[0], [0, 1]]"
proof -
  have "\<not> Max (set [0, 11, 1, 1, 1, 1, 1, 1, 1, 1, 1, 1]) \<le> c_rel_tol ex_c_B"
    "part_of (st_heap ex_st_B) 0 = [[0], [0]]" "c_max_itpl ex_c_B = [3, 2]"
    "self_conjugate (st_self ex_st_B)" "Im (c_svs ex_c_B ! 0 ! 0) \<noteq> 0"
    "c_svs ex_c_B ! 0 ! 1 = cnj (c_svs ex_c_B ! 0 ! 0)"
    by (simp_all add: ex_c_B_def ex_st_B_def part_of_def ex_reductor_B_def ex_reductor_def)
  moreover have "map_sum id (\<lambda>h1. part_of h1 0)
        (greedy_loop True (c_svs ex_c_B) (c_max_itpl ex_c_B) 0 [0, 1] [0, 1] (st_heap ex_st_B))
      = Inr [[0], [0, 1]]"
    unfolding ex_B_greedy by (simp add: part_of_def ex_st_B_def)
  ultimately show ?thesis
    using ex_B_setup ex_B_masked ex_B_greedy_index by simp
qed

subsection \<open>The size of the interpolation partition\<close>

lemma size_bound_iff:
  "size_bound cj mx parts \<longleftrightarrow>
     (\<forall>i<length parts. int (length (parts ! i)) \<le> mx ! i + (if i = 0 \<and> cj then 1 else 0))"
  by (simp only: size_bound_def list_all_iff set_upt Ball_def atLeastLessThan_iff le0 simp_thms)

lemma greedy_list_spec_bound:
  assumes "int (length p) \<le> mx ! i + (if i = 0 \<and> cj then 1 else 0)"
  shows "int (length (greedy_list_spec cj svs mx g i p)) \<le> mx ! i + (if i = 0 \<and> cj then 1 else 0)"
  using assms by (auto simp: greedy_list_spec_def)

lemma reduce_loop_invariant:
  assumes step: "\<And>st out st'. self_itpl_part (st_self st) = Some a
                   \<Longrightarrow> part_wf (st_heap st) a (length (c_svs c)) \<Longrightarrow> P st
                   \<Longrightarrow> reduce_iter E c st = Inr (out, st') \<Longrightarrow> P st'"
  shows "self_itpl_part (st_self st) = Some a \<Longrightarrow> part_wf (st_heap st) a (length (c_svs c))
         \<Longrightarrow> P st \<Longrightarrow> reduce_loop fuel E c st = Some (Inr st')
         \<Longrightarrow> P st' \<and> self_itpl_part (st_self st') = Some a
             \<and> part_wf (st_heap st') a (length (c_svs c))"
proof (induction fuel arbitrary: st)
  case 0
  then show ?case by simp
next
  case (Suc fuel)
  note loop = Suc.prems(4)[unfolded reduce_loop.simps Suc.prems(1) option.case]
  show ?case
  proof (cases "has_room (c_max_itpl c) (part_of (st_heap st) a)")
    case False
    then have "st' = st" using loop by simp
    then show ?thesis using Suc.prems(1,2,3) by simp
  next
    case True
    note loop1 = loop[unfolded if_P[OF True]]
    show ?thesis
    proof (cases "reduce_iter E c st")
      case (Inl e)
      then show ?thesis using loop1 by simp
    next
      case (Inr res)
      obtain out st1 where res: "res = (out, st1)" by (cases res)
      have it: "reduce_iter E c st = Inr (out, st1)" using Inr res by simp
      note R = reduce_iter_props[OF Suc.prems(1,2) it]
      have P1: "P st1" using step[OF Suc.prems(1,2,3) it] .
      note loop2 = loop1[unfolded it sum.case prod.case]
      show ?thesis
      proof (cases out)
        case Again
        then have "reduce_loop fuel E c st1 = Some (Inr st')" using loop2 by simp
        then show ?thesis using Suc.IH[OF R(2,3) P1] by simp
      next
        case Break_tol
        then have "st' = st1" using loop2 by simp
        then show ?thesis using R(2,3) P1 by simp
      next
        case Break_nsp
        then have "st' = st1" using loop2 by simp
        then show ?thesis using R(2,3) P1 by simp
      qed
    qed
  qed
qed

lemma iter_parts_bound:
  assumes a: "self_itpl_part (st_self st) = Some a"
    and wf: "part_wf (st_heap st) a (length (c_svs c))"
    and it: "reduce_iter E c st = Inr (out, st')"
    and i: "i < length (c_svs c)"
  shows "\<exists>g. length (part_of (st_heap st') a ! i)
              \<le> length (greedy_list_spec (self_conjugate (st_self st)) (c_svs c) (c_max_itpl c) g i
                          (part_of (st_heap st) a ! i))"
proof -
  let ?n = "length (c_svs c)"
  let ?cj = "self_conjugate (st_self st)"
  note R = reduce_iter_props[OF a wf it]
  from R(1) obtain masked where M:
    "masked_errors E c st = Inr masked \<and> masked \<noteq> []
           \<and> (out = Break_tol \<longleftrightarrow> Max (set masked) \<le> c_rel_tol c)
           \<and> (out = Break_tol \<longrightarrow> st_heap st' = st_heap st \<and> st_fit st' = st_fit st)
           \<and> (out \<noteq> Break_tol \<longrightarrow>
                (\<exists>h1. greedy_loop (self_conjugate (st_self st)) (c_svs c) (c_max_itpl c) a
                        (greedy_index c masked) [0..<length (c_svs c)] (st_heap st) = Inr h1
                      \<and> (out = Again \<longrightarrow> st_heap st' = h1)
                      \<and> (\<forall>i<length (c_svs c). length (part_of (st_heap st') a ! i)
                                                 \<le> length (part_of h1 a ! i))
                      \<and> st_fit st' \<noteq> None))" ..
  note bt = M[THEN conjunct2, THEN conjunct2, THEN conjunct2, THEN conjunct1]
  note nb = M[THEN conjunct2, THEN conjunct2, THEN conjunct2, THEN conjunct2]
  show ?thesis
  proof (cases "out = Break_tol")
    case True
    with bt have "st_heap st' = st_heap st" by blast
    then show ?thesis
      using length_greedy_list_spec[of "part_of (st_heap st) a ! i"] by auto
  next
    case False
    from nb False have "\<exists>h1. greedy_loop (self_conjugate (st_self st)) (c_svs c) (c_max_itpl c) a
                        (greedy_index c masked) [0..<length (c_svs c)] (st_heap st) = Inr h1
                      \<and> (out = Again \<longrightarrow> st_heap st' = h1)
                      \<and> (\<forall>i<length (c_svs c). length (part_of (st_heap st') a ! i)
                                                 \<le> length (part_of h1 a ! i))
                      \<and> st_fit st' \<noteq> None" by (rule mp)
    then obtain h1 where H: "greedy_loop (self_conjugate (st_self st)) (c_svs c) (c_max_itpl c) a
                        (greedy_index c masked) [0..<length (c_svs c)] (st_heap st) = Inr h1
                      \<and> (out = Again \<longrightarrow> st_heap st' = h1)
                      \<and> (\<forall>i<length (c_svs c). length (part_of (st_heap st') a ! i)
                                                 \<le> length (part_of h1 a ! i))
                      \<and> st_fit st' \<noteq> None" ..
    note g = H[THEN conjunct1]
    note le = H[THEN conjunct2, THEN conjunct2, THEN conjunct1]
    have d: "distinct [0..<?n]" and s: "\<forall>i\<in>set [0..<?n]. i < ?n" by simp_all
    have "part_of h1 a = map (\<lambda>i. if i \<in> set [0..<?n]
              then greedy_list_spec ?cj (c_svs c) (c_max_itpl c) (greedy_index c masked) i
                     (part_of (st_heap st) a ! i)
              else part_of (st_heap st) a ! i) [0..<?n]"
      using greedy_loop_part[OF wf d s g] by blast
    then have "part_of h1 a ! i = (map (\<lambda>i. if i \<in> set [0..<?n]
              then greedy_list_spec ?cj (c_svs c) (c_max_itpl c) (greedy_index c masked) i
                     (part_of (st_heap st) a ! i)
              else part_of (st_heap st) a ! i) [0..<?n]) ! i" by (rule arg_cong)
    then have p: "part_of h1 a ! i = greedy_list_spec ?cj (c_svs c) (c_max_itpl c) (greedy_index c masked) i
                               (part_of (st_heap st) a ! i)"
      using i by simp
    have "length (part_of (st_heap st') a ! i) \<le> length (part_of h1 a ! i)"
      using le i by blast
    then show ?thesis unfolding p by blast
  qed
qed

lemma iter_size_bound:
  assumes a: "self_itpl_part (st_self st) = Some a"
    and wf: "part_wf (st_heap st) a (length (c_svs c))"
    and b: "size_bound (self_conjugate (st_self st)) (c_max_itpl c) (part_of (st_heap st) a)"
    and it: "reduce_iter E c st = Inr (out, st')"
  shows "size_bound (self_conjugate (st_self st')) (c_max_itpl c) (part_of (st_heap st') a)"
proof -
  let ?n = "length (c_svs c)"
  let ?cj = "self_conjugate (st_self st)"
  note R = reduce_iter_props[OF a wf it]
  have cj: "self_conjugate (st_self st') = ?cj" using R(5) by (simp add: same_config_def)
  have l0: "length (part_of (st_heap st) a) = ?n" using wf by (rule length_part_of)
  have l1: "length (part_of (st_heap st') a) = ?n" using R(3) by (rule length_part_of)
  have "int (length (part_of (st_heap st') a ! i)) \<le> c_max_itpl c ! i + (if i = 0 \<and> ?cj then 1 else 0)"
    if i: "i < ?n" for i
  proof -
    obtain g where g: "length (part_of (st_heap st') a ! i)
              \<le> length (greedy_list_spec ?cj (c_svs c) (c_max_itpl c) g i (part_of (st_heap st) a ! i))"
      using iter_parts_bound[OF a wf it i] by blast
    have "int (length (part_of (st_heap st) a ! i)) \<le> c_max_itpl c ! i + (if i = 0 \<and> ?cj then 1 else 0)"
      using b i l0 by (simp only: size_bound_iff)
    then have "int (length (greedy_list_spec ?cj (c_svs c) (c_max_itpl c) g i (part_of (st_heap st) a ! i)))
                 \<le> c_max_itpl c ! i + (if i = 0 \<and> ?cj then 1 else 0)"
      by (rule greedy_list_spec_bound)
    moreover have "int (length (part_of (st_heap st') a ! i))
        \<le> int (length (greedy_list_spec ?cj (c_svs c) (c_max_itpl c) g i (part_of (st_heap st) a ! i)))"
      using g by (simp only: of_nat_le_iff)
    ultimately show ?thesis by (rule order_trans[rotated])
  qed
  then show ?thesis unfolding cj size_bound_iff l1 by blast
qed

lemma reduce_setup_start:
  assumes "reduce_setup E h r tol None max_itpl = Inr (c, st0, s, di, do')"
  shows "\<exists>a. self_itpl_part (st_self st0) = Some a
             \<and> part_wf (st_heap st0) a (length (c_svs c))
             \<and> part_of (st_heap st0) a = replicate (length (c_svs c)) []"
proof -
  obtain h1 where ip: "init_partition h1 r (length (c_svs c)) None = Inr (st_heap st0, st_self st0)"
    using reduce_setup_cases[OF assms] by blast
  let ?n = "length (c_svs c)"
  let ?k0 = "length (int_lists h1)"
  let ?a = "length (ref_lists h1)"
  have h: "st_heap st0 = h1\<lparr>int_lists := int_lists h1 @ replicate ?n [],
                             ref_lists := ref_lists h1 @ [[?k0..<?k0 + ?n]]\<rparr>"
    and r: "self_itpl_part (st_self st0) = Some ?a"
    using ip[symmetric] by (simp_all add: init_partition_def Let_def)
  have wf: "part_wf (st_heap st0) ?a ?n"
    by (simp add: h part_wf_def list_all_iff)
  have "part_of (st_heap st0) ?a = map (\<lambda>b. (int_lists h1 @ replicate ?n []) ! b) [?k0..<?k0 + ?n]"
    by (simp add: h part_of_def)
  also have "\<dots> = replicate ?n []"
    by (rule nth_equalityI) (simp_all add: nth_append)
  finally show ?thesis using r wf by blast
qed

lemma size_bound_empty:
  assumes "\<forall>x\<in>set mx. 0 \<le> x" "length mx = n"
  shows "size_bound cj mx (replicate n [])"
  unfolding size_bound_iff
proof (intro allI impI)
  fix i assume "i < length (replicate n ([] :: nat list))"
  then have i: "i < n" by simp
  then have "mx ! i \<in> set mx" using assms(2) by simp
  then have "0 \<le> mx ! i" using assms(1) by blast
  then show "int (length (replicate n ([] :: nat list) ! i)) \<le> mx ! i + (if i = 0 \<and> cj then 1 else 0)"
    using i by simp
qed

text \<open>
  \<^bold>\<open>C9.\<close> The size bound on the interpolation partition allows one point more than the cap
  for the variable \<open>0\<close> when \<open>conjugate\<close> is set: if the partition has at most \<open>max_itpl[i]\<close>
  entries for every variable \<open>i\<close>, and at most \<open>max_itpl[0] + 1\<close> for the variable \<open>0\<close> when
  \<open>conjugate\<close> is set, then it has so after every iteration and when the loop ends; this is
  the cap itself for every variable \<open>i \<ge> 1\<close> and, when \<open>conjugate\<close> is not set, for the
  variable \<open>0\<close>. The loop of \<open>reduce\<close> starts within the bound when it starts from the empty
  partition and no cap is negative. The extra point is reached: on Example A with the cap
  \<open>1\<close> the first iteration appends the index of \<open>2\<i>\<close> and, without a check of the cap, the
  index of its conjugate, so that the list of the variable \<open>0\<close> has \<open>max_itpl[0] + 1 = 2\<close>
  entries.
\<close>

theorem partition_size_bound:
  assumes "self_itpl_part (st_self st) = Some a"
    and "part_wf (st_heap st) a (length (c_svs c))"
    and "size_bound (self_conjugate (st_self st)) (c_max_itpl c) (part_of (st_heap st) a)"
  shows "(\<forall>out st'. reduce_iter E c st = Inr (out, st') \<longrightarrow>
            size_bound (self_conjugate (st_self st)) (c_max_itpl c) (part_of (st_heap st') a))
         \<and> (\<forall>fuel st'. reduce_loop fuel E c st = Some (Inr st') \<longrightarrow>
            size_bound (self_conjugate (st_self st)) (c_max_itpl c) (part_of (st_heap st') a))
         \<and> (\<forall>parts i. size_bound (self_conjugate (st_self st)) (c_max_itpl c) parts \<and> i < length parts
               \<and> (1 \<le> i \<or> \<not> self_conjugate (st_self st))
               \<longrightarrow> int (length (parts ! i)) \<le> c_max_itpl c ! i)
         \<and> (\<forall>h r tol max_itpl c0 st0 s di do'.
               reduce_setup E h r tol None max_itpl = Inr (c0, st0, s, di, do')
               \<and> (\<forall>x\<in>set (c_max_itpl c0). 0 \<le> x)
               \<longrightarrow> (\<exists>a0. self_itpl_part (st_self st0) = Some a0
                      \<and> part_wf (st_heap st0) a0 (length (c_svs c0))
                      \<and> size_bound (self_conjugate (st_self st0)) (c_max_itpl c0)
                           (part_of (st_heap st0) a0)))
         \<and> (self_conjugate (st_self ex_st_A)
            \<and> size_bound True (c_max_itpl (ex_c_A 1)) (part_of (st_heap ex_st_A) 0)
            \<and> reduce_loop 1 ex_env (ex_c_A 1) ex_st_A = Some (Inr ex_st_A1)
            \<and> int (length (part_of (st_heap ex_st_A1) 0 ! 0)) = c_max_itpl (ex_c_A 1) ! 0 + 1)"
proof (intro conjI allI impI)
  fix out st' assume it: "reduce_iter E c st = Inr (out, st')"
  have "self_conjugate (st_self st') = self_conjugate (st_self st)"
    using reduce_iter_frame(2)[OF it] by (simp add: same_config_def)
  then show "size_bound (self_conjugate (st_self st)) (c_max_itpl c) (part_of (st_heap st') a)"
    using iter_size_bound[OF assms it] by simp
next
  fix fuel st' assume l: "reduce_loop fuel E c st = Some (Inr st')"
  let ?P = "\<lambda>s. size_bound (self_conjugate (st_self s)) (c_max_itpl c) (part_of (st_heap s) a)"
  have "?P st' \<and> self_itpl_part (st_self st') = Some a
             \<and> part_wf (st_heap st') a (length (c_svs c))"
  proof (rule reduce_loop_invariant[where P = ?P and E = E and fuel = fuel and st = st])
    fix s out s'
    assume "self_itpl_part (st_self s) = Some a" "part_wf (st_heap s) a (length (c_svs c))"
      "?P s" "reduce_iter E c s = Inr (out, s')"
    then show "?P s'" by (rule iter_size_bound)
  qed (use assms l in simp_all)
  then have "?P st'" by simp
  moreover have "self_conjugate (st_self st') = self_conjugate (st_self st)"
    using reduce_loop_frame[OF l] by (simp add: same_config_def)
  ultimately show "size_bound (self_conjugate (st_self st)) (c_max_itpl c) (part_of (st_heap st') a)"
    by simp
next
  fix parts i
  assume "size_bound (self_conjugate (st_self st)) (c_max_itpl c) parts \<and> i < length parts
               \<and> (1 \<le> i \<or> \<not> self_conjugate (st_self st))"
  then show "int (length (parts ! i)) \<le> c_max_itpl c ! i"
    unfolding size_bound_iff by auto
next
  fix h r tol max_itpl c0 st0 s di do'
  assume "reduce_setup E h r tol None max_itpl = Inr (c0, st0, s, di, do')
               \<and> (\<forall>x\<in>set (c_max_itpl c0). 0 \<le> x)"
  then have stp: "reduce_setup E h r tol None max_itpl = Inr (c0, st0, s, di, do')"
    and nn: "\<forall>x\<in>set (c_max_itpl c0). 0 \<le> x" by simp_all
  obtain a0 where a0: "self_itpl_part (st_self st0) = Some a0"
      "part_wf (st_heap st0) a0 (length (c_svs c0))"
      "part_of (st_heap st0) a0 = replicate (length (c_svs c0)) []"
    using reduce_setup_start[OF stp] by blast
  have len: "length (c_max_itpl c0) = length (c_svs c0)"
    using reduce_setup_cases[OF stp] by blast
  have "size_bound (self_conjugate (st_self st0)) (c_max_itpl c0) (part_of (st_heap st0) a0)"
    unfolding a0(3) using nn len by (rule size_bound_empty)
  then show "\<exists>a0. self_itpl_part (st_self st0) = Some a0
                      \<and> part_wf (st_heap st0) a0 (length (c_svs c0))
                      \<and> size_bound (self_conjugate (st_self st0)) (c_max_itpl c0)
                           (part_of (st_heap st0) a0)"
    using a0 by blast
next
  show "self_conjugate (st_self ex_st_A)" by (simp add: ex_st_A_def ex_reductor_def)
  show "size_bound True (c_max_itpl (ex_c_A 1)) (part_of (st_heap ex_st_A) 0)"
    by (simp add: size_bound_def part_of_def ex_st_A_def ex_c_A_def)
  show "reduce_loop 1 ex_env (ex_c_A 1) ex_st_A = Some (Inr ex_st_A1)"
    by (rule ex_A_loop) simp
  show "int (length (part_of (st_heap ex_st_A1) 0 ! 0)) = c_max_itpl (ex_c_A 1) ! 0 + 1"
    by (simp add: part_of_def ex_st_A1_def ex_st_A_def ex_c_A_def)
qed

theorem partition_size_bound_witness:
  "size_bound True [1] (part_of (st_heap ex_st_A1) 0) \<and> part_of (st_heap ex_st_A1) 0 = [[2, 3]]"
proof -
  have a: "self_itpl_part (st_self ex_st_A) = Some 0" "self_conjugate (st_self ex_st_A) = True"
    by (simp_all add: ex_st_A_def ex_reductor_def)
  have wf: "part_wf (st_heap ex_st_A) 0 (length (c_svs (ex_c_A 1)))"
    by (simp add: part_wf_def ex_st_A_def ex_c_A_def)
  have b: "size_bound (self_conjugate (st_self ex_st_A)) (c_max_itpl (ex_c_A 1)) (part_of (st_heap ex_st_A) 0)"
    by (simp add: size_bound_def part_of_def ex_st_A_def ex_c_A_def ex_reductor_def)
  have l: "reduce_loop 1 ex_env (ex_c_A 1) ex_st_A = Some (Inr ex_st_A1)"
    by (rule ex_A_loop) simp
  have "size_bound (self_conjugate (st_self ex_st_A)) (c_max_itpl (ex_c_A 1)) (part_of (st_heap ex_st_A1) 0)"
    using partition_size_bound[OF a(1) wf b, of ex_env, THEN conjunct2, THEN conjunct1] l by blast
  moreover have "c_max_itpl (ex_c_A 1) = [1]" by (simp add: ex_c_A_def)
  moreover have "part_of (st_heap ex_st_A1) 0 = [[2, 3]]"
    by (simp add: part_of_def ex_st_A1_def ex_st_A_def)
  ultimately show ?thesis using a(2) by simp
qed


end
